theory Spec2Isabelle
  imports Complex_Main "HOL-Library.AList"
begin

section \<open>Strings\<close>

text \<open>
  A Python \<open>str\<close> is modelled as a \<open>string\<close>, one \<open>char\<close> per code point (code points
  below 256). \<open>whitespace\<close> lists the code points of that range on which \<open>str.split()\<close>
  without arguments separates words: TAB, LF, VT, FF, CR, FS, GS, RS, US, SPACE, NEL, NBSP.
\<close>

definition whitespace :: "char list" where
  "whitespace =
     [CHR 0x09, CHR 0x0A, CHR 0x0B, CHR 0x0C, CHR 0x0D, CHR 0x1C, CHR 0x1D, CHR 0x1E,
      CHR 0x1F, CHR 0x20, CHR 0x85, CHR 0xA0]"

definition isspace :: "char \<Rightarrow> bool" where
  "isspace c = (c \<in> set whitespace)"

text \<open>
  \<open>text.split()\<close>: the maximal runs of non-whitespace characters, in order. The second
  argument of \<open>split_aux\<close> is the word read so far.
\<close>

fun split_aux :: "string \<Rightarrow> string \<Rightarrow> string list" where
  "split_aux [] w = (if w = [] then [] else [w])"
| "split_aux (c # cs) w =
     (if isspace c then (if w = [] then split_aux cs [] else w # split_aux cs [])
      else split_aux cs (w @ [c]))"

definition str_split :: "string \<Rightarrow> string list" where
  "str_split text = split_aux text []"

text \<open>
  \<open>text.split(sep)\<close> for a separator of one character: the text between the occurrences
  of the separator, empty strings included (\<open>"a  b".split(" ")\<close> is \<open>['a', '', 'b']\<close>, and
  \<open>"".split(" ")\<close> is \<open>['']\<close>).
\<close>

fun split_on :: "char \<Rightarrow> string \<Rightarrow> string \<Rightarrow> string list" where
  "split_on sep [] w = [w]"
| "split_on sep (c # cs) w =
     (if c = sep then w # split_on sep cs [] else split_on sep cs (w @ [c]))"

definition str_split_on :: "char \<Rightarrow> string \<Rightarrow> string list" where
  "str_split_on sep text = split_on sep text []"

text \<open>A word: a non-empty string without whitespace.\<close>

definition word_ok :: "string \<Rightarrow> bool" where
  "word_ok w = (w \<noteq> [] \<and> (\<forall>c \<in> set w. \<not> isspace c))"

text \<open>\<open>sep.join(ws)\<close>.\<close>

fun str_join :: "string \<Rightarrow> string list \<Rightarrow> string" where
  "str_join sep [] = []"
| "str_join sep [w] = w"
| "str_join sep (w # v # ws) = w @ sep @ str_join sep (v # ws)"

section \<open>The chunker\<close>

text \<open>
  The \<open>for word in words\<close> loop of \<open>chunk_text\<close>, with its three mutable variables
  \<open>chunks\<close>, \<open>current_chunk\<close> and \<open>current_length\<close> as arguments; the equation for the
  empty list is the code after the loop. \<open>max_length\<close> is a Python \<open>int\<close>.
\<close>

fun chunk_loop :: "int \<Rightarrow> string list \<Rightarrow> string list \<Rightarrow> string list \<Rightarrow> int \<Rightarrow> string list" where
  "chunk_loop max_length [] chunks current_chunk current_length =
     (if current_chunk \<noteq> [] then chunks @ [str_join '' '' current_chunk] else chunks)"
| "chunk_loop max_length (word # words) chunks current_chunk current_length =
     (if current_length + int (length word) + 1 \<le> max_length
      then chunk_loop max_length words chunks (current_chunk @ [word])
             (current_length + (int (length word) + 1))
      else chunk_loop max_length words
             (if current_chunk \<noteq> [] then chunks @ [str_join '' '' current_chunk] else chunks)
             [word] (int (length word)))"

definition chunk_text :: "string \<Rightarrow> int \<Rightarrow> string list" where
  "chunk_text text max_length = chunk_loop max_length (str_split text) [] [] 0"

section \<open>Python values\<close>

text \<open>
  The values that \<open>response.json()\<close> returns and that the result dictionaries hold. A
  \<open>float\<close> is a finite one, given by its exact value: the program only compares scores,
  and Python compares \<open>bool\<close>, \<open>int\<close> and finite \<open>float\<close> values by their exact values.
  A \<open>dict\<close> is an association list in insertion order.
\<close>

datatype pyval =
    PNone
  | PBool bool
  | PInt int
  | PFloat real
  | PStr string
  | PList "pyval list"
  | PDict "(string \<times> pyval) list"

type_synonym pydict = "(string \<times> pyval) list"

datatype pyexn = KeyError string | TypeError string | UnicodeDecodeError

fun type_name :: "pyval \<Rightarrow> string" where
  "type_name PNone = ''NoneType''"
| "type_name (PBool b) = ''bool''"
| "type_name (PInt i) = ''int''"
| "type_name (PFloat r) = ''float''"
| "type_name (PStr s) = ''str''"
| "type_name (PList vs) = ''list''"
| "type_name (PDict kvs) = ''dict''"

text \<open>A string between single quotes, as Python's messages and the f-strings write it.\<close>

definition quoted :: "string \<Rightarrow> string" where
  "quoted s = [CHR 0x27] @ s @ [CHR 0x27]"

text \<open>The number a value stands for in a comparison, if it is one.\<close>

fun num_val :: "pyval \<Rightarrow> real option" where
  "num_val (PBool b) = Some (if b then 1 else 0)"
| "num_val (PInt i) = Some (of_int i)"
| "num_val (PFloat r) = Some r"
| "num_val v = None"

text \<open>
  \<open>a > b\<close> where \<open>b\<close> is a number, which is how the program uses it (\<open>b\<close> is
  \<open>best_answer["score"]\<close>, a number on every path, see \<open>sentinel_score\<close> and
  \<open>select_loop_score\<close> below): the comparison of two numbers, and \<open>TypeError\<close> for a
  left operand that is not a number. For a right operand that is not a number the model
  raises \<open>TypeError\<close> as well.
\<close>

definition py_gt :: "pyval \<Rightarrow> pyval \<Rightarrow> pyexn + bool" where
  "py_gt a b =
     (case (num_val a, num_val b) of
        (Some x, Some y) \<Rightarrow> Inr (y < x)
      | _ \<Rightarrow> Inl (TypeError (quoted ''>'' @ '' not supported between instances of '' @
                  quoted (type_name a) @ '' and '' @ quoted (type_name b))))"

text \<open>\<open>k in d\<close>, \<open>d.get(k, default)\<close>, \<open>d[k]\<close> and \<open>d[k] = v\<close>.\<close>

definition has_key :: "pydict \<Rightarrow> string \<Rightarrow> bool" where
  "has_key d k = (map_of d k \<noteq> None)"

definition dict_get :: "pydict \<Rightarrow> string \<Rightarrow> pyval \<Rightarrow> pyval" where
  "dict_get d k dflt = (case map_of d k of None \<Rightarrow> dflt | Some v \<Rightarrow> v)"

definition dict_index :: "pydict \<Rightarrow> string \<Rightarrow> pyexn + pyval" where
  "dict_index d k = (case map_of d k of None \<Rightarrow> Inl (KeyError k) | Some v \<Rightarrow> Inr v)"

definition dict_set :: "pydict \<Rightarrow> string \<Rightarrow> pyval \<Rightarrow> pydict" where
  "dict_set d k v = AList.update k v d"

text \<open>\<open>str(n)\<close> for an \<open>int\<close>.\<close>

function str_nat :: "nat \<Rightarrow> string" where
  "str_nat n =
     (if n < 10 then [''0123456789'' ! n] else str_nat (n div 10) @ [''0123456789'' ! (n mod 10)])"
  by pat_completeness auto
termination
  by (relation "measure (\<lambda>n. n)") auto

declare str_nat.simps [simp del]

definition str_int :: "int \<Rightarrow> string" where
  "str_int i = (if i < 0 then ''-'' @ str_nat (nat (- i)) else str_nat (nat i))"

section \<open>The remote inference API\<close>

text \<open>
  \<open>requests.post(url, headers=..., json=...)\<close> is the only contact with the outside. A call
  either raises (\<open>Raised\<close>, with the text of the exception) or returns a response with its
  \<open>status_code\<close>, the outcome of \<open>response.json()\<close> (\<open>Inl\<close> the text of the exception it
  raises, \<open>Inr\<close> the parsed value) and \<open>response.text\<close>. The network is a function of the
  number of calls made before and of the request, so that equal requests may be answered
  differently; every function that may call it takes the number of calls made so far and
  returns the number of calls made when it ends.
\<close>

record http_request =
  req_url :: string
  req_headers :: "(string \<times> string) list"
  req_json :: pyval

datatype http_outcome =
    Raised string
  | Response int "string + pyval" string

type_synonym network = "nat \<Rightarrow> http_request \<Rightarrow> http_outcome"

section \<open>The answer selector\<close>

text \<open>The fields of \<open>PDFQuestionAnswering\<close> that the question-answering methods read.\<close>

record pdfqa =
  hf_api_token :: string
  pdf_text :: string
  model_name :: string
  api_url :: string
  headers :: "(string \<times> string) list"

definition init :: "string \<Rightarrow> string \<Rightarrow> pdfqa" where
  "init token name =
     \<lparr>hf_api_token = token, pdf_text = [], model_name = name,
      api_url = ''https://api-inference.huggingface.co/models/'' @ name,
      headers = [(''Authorization'', ''Bearer '' @ token)]\<rparr>"

definition no_pdf_text :: pydict where
  "no_pdf_text = [(''error'', PStr ''No PDF text available. Please load a PDF first.'')]"

text \<open>
  \<open>ask_question\<close>. The \<open>try\<close> block catches every exception, also the \<open>AttributeError\<close>
  of \<open>result.get\<close> when the parsed body is not a \<open>dict\<close>.
\<close>

definition ask_question :: "network \<Rightarrow> pdfqa \<Rightarrow> string \<Rightarrow> string option \<Rightarrow> nat \<Rightarrow> pydict \<times> nat" where
  "ask_question net self question context n =
     (let context = (case context of None \<Rightarrow> pdf_text self
                     | Some c \<Rightarrow> if c = [] then pdf_text self else c)
      in if context = [] then (no_pdf_text, n)
         else
           let payload = PDict [(''inputs'',
                            PDict [(''question'', PStr question), (''context'', PStr context)])]
           in (case net n \<lparr>req_url = api_url self, req_headers = headers self,
                             req_json = payload\<rparr> of
                 Raised msg \<Rightarrow> [(''error'', PStr (''Error making API request: '' @ msg))]
               | Response status_code body text \<Rightarrow>
                   if status_code = 200 then
                     (case body of
                        Inl msg \<Rightarrow> [(''error'', PStr (''Error making API request: '' @ msg))]
                      | Inr (PDict result) \<Rightarrow>
                          [(''answer'', dict_get result ''answer'' (PStr ''No answer found'')),
                           (''score'', dict_get result ''score'' (PInt 0)),
                           (''start'', dict_get result ''start'' (PInt 0)),
                           (''end'', dict_get result ''end'' (PInt 0))]
                      | Inr v \<Rightarrow>
                          [(''error'', PStr (''Error making API request: '' @
                              quoted (type_name v) @ '' object has no attribute '' @
                              quoted ''get''))])
                   else if status_code = 404 then
                     [(''error'', PStr (''Model '' @ quoted (model_name self) @
                         '' not found. Try changing to a different model.''))]
                   else if status_code = 503 then
                     [(''error'', PStr ''Model is loading. Please wait a moment and try again.'')]
                   else
                     [(''error'', PStr (''API request failed: '' @ str_int status_code @
                         '' - '' @ text))],
               Suc n))"

text \<open>
  The \<open>for i, chunk in enumerate(chunks)\<close> loop of \<open>ask_question_with_chunking\<close>, with
  \<open>best_answer\<close> as an argument; the \<open>print\<close> calls are left out. An exception of the
  comparison leaves the function.
\<close>

fun select_loop ::
  "network \<Rightarrow> pdfqa \<Rightarrow> string \<Rightarrow> (nat \<times> string) list \<Rightarrow> pydict \<Rightarrow> nat \<Rightarrow> (pyexn + pydict) \<times> nat"
where
  "select_loop net self question [] best_answer n = (Inr best_answer, n)"
| "select_loop net self question ((i, chunk) # rest) best_answer n =
     (case ask_question net self question (Some chunk) n of
        (result, n') \<Rightarrow>
          if \<not> has_key result ''error'' then
            (case dict_index best_answer ''score'' of
               Inl e \<Rightarrow> (Inl e, n')
             | Inr best_score \<Rightarrow>
                 (case py_gt (dict_get result ''score'' (PInt 0)) best_score of
                    Inl e \<Rightarrow> (Inl e, n')
                  | Inr better \<Rightarrow>
                      if better
                      then select_loop net self question rest
                             (dict_set result ''chunk_index'' (PInt (int i))) n'
                      else select_loop net self question rest best_answer n'))
          else select_loop net self question rest best_answer n')"

definition sentinel :: pydict where
  "sentinel = [(''answer'', PStr ''No answer found''), (''score'', PInt 0)]"

definition ask_question_with_chunking :: "network \<Rightarrow> pdfqa \<Rightarrow> string \<Rightarrow> nat \<Rightarrow> (pyexn + pydict) \<times> nat" where
  "ask_question_with_chunking net self question n =
     (if pdf_text self = [] then (Inr no_pdf_text, n)
      else
        let chunks = chunk_text (pdf_text self) 1000;
            best_answer = sentinel
        in select_loop net self question (enumerate 0 chunks) best_answer n)"

text \<open>
  The result dictionaries of the loop's successive calls of \<open>ask_question\<close>, one per chunk,
  the first call being call number \<open>n\<close> (each call of the loop is one call of the network,
  see \<open>ask_question_calls\<close>).
\<close>

fun chunk_results :: "network \<Rightarrow> pdfqa \<Rightarrow> string \<Rightarrow> string list \<Rightarrow> nat \<Rightarrow> pydict list" where
  "chunk_results net self question [] n = []"
| "chunk_results net self question (chunk # chunks) n =
     fst (ask_question net self question (Some chunk) n) #
     chunk_results net self question chunks (Suc n)"

text \<open>The results of the chunks of the document, as \<open>ask_question_with_chunking\<close> gets them.\<close>

definition search_results :: "network \<Rightarrow> pdfqa \<Rightarrow> string \<Rightarrow> nat \<Rightarrow> pydict list" where
  "search_results net self question n =
     chunk_results net self question (chunk_text (pdf_text self) 1000) n"

text \<open>
  The score of a successful result, as the loop reads it: none for a result with the key
  \<open>error\<close> and for a score that is not a number.
\<close>

definition cand_score :: "pydict \<Rightarrow> real option" where
  "cand_score r =
     (if has_key r ''error'' then None else num_val (dict_get r ''score'' (PInt 0)))"

text \<open>A result that the loop can handle: an error, or a candidate whose score is a number.\<close>

definition well_scored :: "pydict \<Rightarrow> bool" where
  "well_scored r = (has_key r ''error'' \<or> num_val (dict_get r ''score'' (PInt 0)) \<noteq> None)"

text \<open>
  What the loop selects from the results \<open>rs\<close> of the chunks numbered from \<open>j\<close>, started
  with \<open>best\<close> of score \<open>sb\<close>: \<open>best\<close> itself when no score exceeds \<open>sb\<close>, and otherwise
  the first result of the highest score, with its chunk index.
\<close>

definition selected :: "pydict list \<Rightarrow> nat \<Rightarrow> real \<Rightarrow> pydict \<Rightarrow> pydict \<Rightarrow> bool" where
  "selected rs j sb best d =
     ((d = best \<and> (\<forall>i<length rs. \<forall>y. cand_score (rs ! i) = Some y \<longrightarrow> y \<le> sb)) \<or>
      (\<exists>k<length rs. \<exists>x. cand_score (rs ! k) = Some x \<and> sb < x \<and>
          d = dict_set (rs ! k) ''chunk_index'' (PInt (int (j + k))) \<and>
          (\<forall>i<length rs. \<forall>y. cand_score (rs ! i) = Some y \<longrightarrow> y \<le> x) \<and>
          (\<forall>i<k. \<forall>y. cand_score (rs ! i) = Some y \<longrightarrow> y < x)))"

section \<open>Loading a document\<close>

text \<open>\<open>text.strip()\<close>: leading and trailing whitespace removed.\<close>

definition str_strip :: "string \<Rightarrow> string" where
  "str_strip text = rev (dropWhile isspace (rev (dropWhile isspace text)))"

text \<open>
  \<open>extract_text_from_pdf\<close>. Opening and reading the file is outside the program: it gives
  the texts of the pages, or raises (the \<open>except\<close> branch, which leaves \<open>pdf_text\<close> as it
  is and returns the empty string). The only assignment to \<open>pdf_text\<close> after the
  constructor's is the one here.
\<close>

datatype pdf_outcome = PdfError string | Pages "string list"

definition extract_text_from_pdf :: "pdf_outcome \<Rightarrow> pdfqa \<Rightarrow> string \<times> pdfqa" where
  "extract_text_from_pdf reader self =
     (case reader of
        PdfError msg \<Rightarrow> ([], self)
      | Pages pages \<Rightarrow>
          let text = foldl (\<lambda>text page. text @ page @ [CHR 0x0A]) [] pages;
              self = self\<lparr>pdf_text := str_strip text\<rparr>
          in (pdf_text self, self))"

text \<open>\<open>change_model\<close>; the \<open>print\<close> call is left out.\<close>

definition change_model :: "string \<Rightarrow> pdfqa \<Rightarrow> pdfqa" where
  "change_model name self =
     self\<lparr>model_name := name,
          api_url := ''https://api-inference.huggingface.co/models/'' @ name\<rparr>"

text \<open>
  The states of a \<open>PDFQuestionAnswering\<close> object: the constructor makes one, and the two
  methods that assign to a field, \<open>extract_text_from_pdf\<close> and \<open>change_model\<close>, lead from
  one to the next.
\<close>

inductive document_state :: "pdfqa \<Rightarrow> bool" where
  constructed: "document_state (init token name)"
| extracted: "document_state self \<Longrightarrow> document_state (snd (extract_text_from_pdf reader self))"
| changed: "document_state self \<Longrightarrow> document_state (change_model name self)"

section \<open>The HTTP entry point\<close>

text \<open>
  The form of a request to \<open>/process\<close>: \<open>request.files.get('file')\<close> and the three
  \<open>request.form.get(...)\<close>, each \<open>None\<close> when the field is absent. An uploaded file is
  its \<open>filename\<close> (a file object is true when its name is not empty) and the outcome of
  \<open>file.read().decode('utf-8')\<close>, \<open>None\<close> when the bytes are not UTF-8.
\<close>

record upload =
  filename :: string
  decoded :: "string option"

record form_data =
  form_file :: "upload option"
  hf_model :: "string option"
  hf_token :: "string option"
  prompt :: "string option"

text \<open>
  What the view returns: a body with its status (200 when the view returns a bare
  \<open>dict\<close>), or an exception that the view does not handle.
\<close>

datatype reply = Reply int pydict | Unhandled pyexn

definition HUGGINGFACE_API_URL :: string where
  "HUGGINGFACE_API_URL = ''https://api-inference.huggingface.co/models/''"

text \<open>Truth value of an optional string: \<open>None\<close> and \<open>""\<close> are false.\<close>

definition truthy :: "string option \<Rightarrow> bool" where
  "truthy s = (case s of None \<Rightarrow> False | Some v \<Rightarrow> v \<noteq> [])"

text \<open>\<open>f"{s}"\<close> of an optional string.\<close>

definition format_opt :: "string option \<Rightarrow> string" where
  "format_opt s = (case s of None \<Rightarrow> ''None'' | Some v \<Rightarrow> v)"

definition process :: "network \<Rightarrow> form_data \<Rightarrow> nat \<Rightarrow> reply \<times> nat" where
  "process net request n =
     (let model = hf_model request; token = hf_token request in
      if \<not> truthy model \<or> \<not> truthy (prompt request)
      then (Reply 400 [(''status'', PStr ''error''),
                       (''message'', PStr ''Model and prompt are required.'')], n)
      else
        (case (case form_file request of
                 None \<Rightarrow> Some []
               | Some f \<Rightarrow> if filename f \<noteq> [] then decoded f else Some []) of
           None \<Rightarrow> (Unhandled UnicodeDecodeError, n)
         | Some file_content \<Rightarrow>
             let context = file_content;
                 payload =
                   (if context = []
                    then PDict [(''inputs'', PDict [(''question'', PStr (the (prompt request)))])]
                    else PDict [(''inputs'', PDict [(''question'', PStr (the (prompt request))),
                                                   (''context'', PStr context)])]);
                 headers = [(''Authorization'', ''Bearer '' @ format_opt token)];
                 hf_url = HUGGINGFACE_API_URL @ the model
             in (case net n \<lparr>req_url = hf_url, req_headers = headers, req_json = payload\<rparr> of
                   Raised msg \<Rightarrow>
                     Reply 500 [(''status'', PStr ''failure''), (''error'', PStr msg)]
                 | Response status_code body text \<Rightarrow>
                     if status_code = 200 then
                       (case body of
                          Inl msg \<Rightarrow>
                            Reply 500 [(''status'', PStr ''failure''), (''error'', PStr msg)]
                        | Inr (PDict result) \<Rightarrow>
                            Reply 200
                              [(''status'', PStr ''success''),
                               (''answer'', dict_get result ''answer'' (PStr ''No answer found'')),
                               (''score'', dict_get result ''score'' (PInt 0)),
                               (''start'', dict_get result ''start'' (PInt 0)),
                               (''end'', dict_get result ''end'' (PInt 0))]
                        | Inr v \<Rightarrow>
                            Reply 500 [(''status'', PStr ''failure''),
                                       (''error'', PStr (quoted (type_name v) @
                                          '' object has no attribute '' @ quoted ''get''))])
                     else if status_code = 404 then
                       Reply 200 [(''error'', PStr (''Model '' @ quoted (the model) @
                           '' not found. Try changing to a different model.''))]
                     else if status_code = 503 then
                       Reply 200
                         [(''error'', PStr ''Model is loading. Please wait a moment and try again.'')]
                     else
                       Reply 200 [(''error'', PStr (''API request failed: '' @
                           str_int status_code @ '' - '' @ text))],
                 Suc n)))"

section \<open>Example documents and networks\<close>

text \<open>A network that answers its calls from a list, and refuses further ones.\<close>

definition scripted :: "http_outcome list \<Rightarrow> network" where
  "scripted outs n req = (if n < length outs then outs ! n else Raised ''connection refused'')"

text \<open>A successful response with an answer and its score.\<close>

definition scored :: "string \<Rightarrow> real \<Rightarrow> http_outcome" where
  "scored a s =
     Response 200 (Inr (PDict [(''answer'', PStr a), (''score'', PFloat s),
                               (''start'', PInt 0), (''end'', PInt 1)])) []"

text \<open>The result dictionary that \<open>ask_question\<close> makes of it.\<close>

definition candidate :: "string \<Rightarrow> real \<Rightarrow> pydict" where
  "candidate a s =
     [(''answer'', PStr a), (''score'', PFloat s), (''start'', PInt 0), (''end'', PInt 1)]"

text \<open>A word of 1000 characters, which fills a chunk of the default maximum length.\<close>

definition long_word :: string where
  "long_word = replicate 1000 CHR ''a''"

definition two_words :: string where
  "two_words = long_word @ '' '' @ long_word"

definition three_words :: string where
  "three_words = long_word @ '' '' @ long_word @ '' '' @ long_word"

definition document :: "string \<Rightarrow> pdfqa" where
  "document text = (init ''token'' ''deepset/roberta-base-squad2'')\<lparr>pdf_text := text\<rparr>"

section \<open>Properties of the chunker\<close>

subsection \<open>Splitting and joining\<close>

lemma isspace_space [simp]: "isspace CHR '' ''"
  by (simp add: isspace_def whitespace_def)

lemma split_aux_words:
  "\<forall>c \<in> set w. \<not> isspace c \<Longrightarrow> v \<in> set (split_aux cs w) \<Longrightarrow> word_ok v"
proof (induction cs arbitrary: w)
  case Nil
  then show ?case by (simp add: word_ok_def split: if_splits)
next
  case (Cons c cs)
  show ?case
  proof (cases "isspace c")
    case True
    have nil: "\<forall>c \<in> set ([]::string). \<not> isspace c" by simp
    from True Cons.prems(2) have "v \<in> set (split_aux cs []) \<or> (v = w \<and> w \<noteq> [])"
      by (simp split: if_splits) blast
    then show ?thesis
    proof
      assume "v \<in> set (split_aux cs [])"
      with Cons.IH [OF nil] show ?thesis .
    next
      assume "v = w \<and> w \<noteq> []"
      with Cons.prems(1) show ?thesis by (simp add: word_ok_def)
    qed
  next
    case False
    with Cons.prems(1) have "\<forall>x \<in> set (w @ [c]). \<not> isspace x" by simp
    moreover from False Cons.prems(2) have "v \<in> set (split_aux cs (w @ [c]))" by simp
    ultimately show ?thesis by (rule Cons.IH)
  qed
qed

lemma str_split_words: "v \<in> set (str_split t) \<Longrightarrow> word_ok v"
  unfolding str_split_def by (rule split_aux_words [of "[]"]) simp_all

lemma split_aux_run:
  "\<forall>c \<in> set u. \<not> isspace c \<Longrightarrow> split_aux (u @ cs) w = split_aux cs (w @ u)"
  by (induction u arbitrary: w) simp_all

lemma str_split_word: "word_ok w \<Longrightarrow> str_split w = [w]"
  using split_aux_run [of w "[]" "[]"] by (simp add: str_split_def word_ok_def)

lemma str_split_word_space:
  "word_ok w \<Longrightarrow> str_split (w @ CHR '' '' # cs) = w # str_split cs"
  using split_aux_run [of w "CHR '' '' # cs" "[]"] by (simp add: str_split_def word_ok_def)

lemma str_join_Cons: "ws \<noteq> [] \<Longrightarrow> str_join sep (w # ws) = w @ sep @ str_join sep ws"
  by (cases ws) simp_all

lemma str_split_join:
  "\<forall>w \<in> set ws. word_ok w \<Longrightarrow> str_split (str_join '' '' ws) = ws"
proof (induction ws)
  case Nil
  show ?case by (simp add: str_split_def)
next
  case (Cons w ws)
  show ?case
  proof (cases "ws = []")
    case True
    with Cons.prems show ?thesis by (simp add: str_split_word)
  next
    case False
    with Cons show ?thesis by (simp add: str_join_Cons str_split_word_space)
  qed
qed

subsection \<open>The words of the chunks\<close>

lemma chunk_loop_words:
  "\<forall>w \<in> set ws. word_ok w \<Longrightarrow> \<forall>w \<in> set cur. word_ok w \<Longrightarrow>
   concat (map str_split (chunk_loop L ws chunks cur len)) =
   concat (map str_split chunks) @ cur @ ws"
  by (induction ws arbitrary: chunks cur len) (auto simp: str_split_join)

lemma chunk_text_split_words: "concat (map str_split (chunk_text t L)) = str_split t"
  using chunk_loop_words [of "str_split t" "[]" L "[]" 0] str_split_words [of _ t]
  by (simp add: chunk_text_def)

lemma word_no_space: "word_ok w \<Longrightarrow> \<forall>c \<in> set w. c \<noteq> CHR '' ''"
  by (auto simp: word_ok_def)

lemma split_on_run:
  "\<forall>c \<in> set u. c \<noteq> sep \<Longrightarrow> split_on sep (u @ cs) w = split_on sep cs (w @ u)"
  by (induction u arbitrary: w) simp_all

lemma str_split_on_word: "word_ok w \<Longrightarrow> str_split_on CHR '' '' w = [w]"
  using split_on_run [OF word_no_space, of w "[]" "[]"] by (simp add: str_split_on_def)

lemma str_split_on_word_space:
  "word_ok w \<Longrightarrow> str_split_on CHR '' '' (w @ CHR '' '' # cs) = w # str_split_on CHR '' '' cs"
  using split_on_run [OF word_no_space, of w "CHR '' '' # cs" "[]"]
  by (simp add: str_split_on_def)

lemma str_split_on_join:
  "ws \<noteq> [] \<Longrightarrow> \<forall>w \<in> set ws. word_ok w \<Longrightarrow>
   str_split_on CHR '' '' (str_join '' '' ws) = ws"
proof (induction ws)
  case Nil
  then show ?case by simp
next
  case (Cons w ws)
  show ?case
  proof (cases "ws = []")
    case True
    with Cons.prems show ?thesis by (simp add: str_split_on_word)
  next
    case False
    with Cons show ?thesis by (simp add: str_join_Cons str_split_on_word_space)
  qed
qed

lemma chunk_loop_words_on:
  "\<forall>w \<in> set ws. word_ok w \<Longrightarrow> \<forall>w \<in> set cur. word_ok w \<Longrightarrow>
   concat (map (str_split_on CHR '' '') (chunk_loop L ws chunks cur len)) =
   concat (map (str_split_on CHR '' '') chunks) @ cur @ ws"
proof (induction ws arbitrary: chunks cur len)
  case Nil
  then show ?case by (simp add: str_split_on_join)
next
  case (Cons w ws)
  have w: "word_ok w" and ws: "\<forall>w \<in> set ws. word_ok w" using Cons.prems(1) by simp_all
  show ?case
  proof (cases "len + int (length w) + 1 \<le> L")
    case True
    have "\<forall>v \<in> set (cur @ [w]). word_ok v" using Cons.prems(2) w by simp
    from Cons.IH [OF ws this, of chunks "len + (int (length w) + 1)"] True
    show ?thesis by simp
  next
    case False
    have "\<forall>v \<in> set [w]. word_ok v" using w by simp
    from Cons.IH [OF ws this,
        of "if cur \<noteq> [] then chunks @ [str_join '' '' cur] else chunks" "int (length w)"]
      False Cons.prems(2)
    show ?thesis by (simp add: str_split_on_join)
  qed
qed

text \<open>
  Claim C1: for every input text and every maximum length \<open>L \<ge> 1\<close>, splitting each chunk
  returned by \<open>chunk_text\<close> on spaces (\<open>chunk.split(" ")\<close>) and concatenating these word
  sequences gives exactly the word sequence of the input text (\<open>text.split()\<close>): no word
  is lost, duplicated or reordered.
\<close>

theorem chunk_text_words:
  "1 \<le> L \<Longrightarrow> concat (map (str_split_on CHR '' '') (chunk_text t L)) = str_split t"
  using chunk_loop_words_on [of "str_split t" "[]" L "[]" 0] str_split_words [of _ t]
  by (simp add: chunk_text_def)

theorem chunk_text_words_witness:
  "(1::int) \<le> 3 \<and>
   chunk_text ''aa b  c dddd e'' 3 = [''aa'', ''b c'', ''dddd'', ''e''] \<and>
   concat (map (str_split_on CHR '' '') [''aa'', ''b c'', ''dddd'', ''e'']) =
     [''aa'', ''b'', ''c'', ''dddd'', ''e''] \<and>
   str_split ''aa b  c dddd e'' = [''aa'', ''b'', ''c'', ''dddd'', ''e''] \<and>
   str_split_on CHR '' '' ''aa b  c dddd e'' = [''aa'', ''b'', '''', ''c'', ''dddd'', ''e'']"
proof -
  have e: "chunk_text ''aa b  c dddd e'' 3 = [''aa'', ''b c'', ''dddd'', ''e'']"
    by (simp add: chunk_text_def str_split_def isspace_def whitespace_def)
  have s: "str_split ''aa b  c dddd e'' = [''aa'', ''b'', ''c'', ''dddd'', ''e'']"
    by (simp add: str_split_def isspace_def whitespace_def)
  have o: "str_split_on CHR '' '' ''aa b  c dddd e'' = [''aa'', ''b'', '''', ''c'', ''dddd'', ''e'']"
    by (simp add: str_split_on_def)
  show ?thesis
    using chunk_text_words [of 3 "''aa b  c dddd e''"] e s o by simp
qed

subsection \<open>The length of the chunks\<close>

lemma chunk_loop_prefix:
  "chunk_loop L ws chunks cur len = chunks @ chunk_loop L ws [] cur len"
proof (induction ws arbitrary: chunks cur len)
  case Nil
  show ?case by simp
next
  case (Cons w ws)
  show ?case
  proof (cases "len + int (length w) + 1 \<le> L")
    case True
    then show ?thesis using Cons.IH [of chunks "cur @ [w]"] by simp
  next
    case False
    show ?thesis
    proof (cases "cur = []")
      case True
      with False show ?thesis using Cons.IH [of chunks "[w]"] by simp
    next
      case nonempty: False
      with False show ?thesis
        using Cons.IH [of "chunks @ [str_join '' '' cur]" "[w]"]
          Cons.IH [of "[str_join '' '' cur]" "[w]"] by simp
    qed
  qed
qed

lemma length_str_join_snoc:
  "length (str_join '' '' (cur @ [w])) =
     (if cur = [] then length w else length (str_join '' '' cur) + 1 + length w)"
proof (induction cur)
  case Nil
  show ?case by simp
next
  case (Cons v cur)
  then show ?case by (cases "cur = []") (simp_all add: str_join_Cons)
qed

lemma chunk_loop_bound:
  assumes "\<forall>w \<in> set ws. word_ok w"
    and "\<forall>c \<in> set chunks. int (length c) \<le> L \<or> (str_split c = [c] \<and> L < int (length c))"
    and "0 \<le> len"
    and "cur = [] \<or> (int (length (str_join '' '' cur)) \<le> len \<and>
           (len \<le> L \<or> (\<exists>w. cur = [w] \<and> word_ok w)))"
    and "c \<in> set (chunk_loop L ws chunks cur len)"
  shows "int (length c) \<le> L \<or> (str_split c = [c] \<and> L < int (length c))"
  using assms
proof (induction ws arbitrary: chunks cur len)
  case Nil
  then show ?case by (auto simp: str_split_word split: if_splits)
next
  case (Cons w ws)
  have flush: "\<forall>c \<in> set (if cur \<noteq> [] then chunks @ [str_join '' '' cur] else chunks).
                 int (length c) \<le> L \<or> (str_split c = [c] \<and> L < int (length c))"
    using Cons.prems(2,4) by (auto simp: str_split_word)
  show ?case
  proof (cases "len + int (length w) + 1 \<le> L")
    case True
    have "c \<in> set (chunk_loop L ws chunks (cur @ [w]) (len + (int (length w) + 1)))"
      using Cons.prems(5) True by simp
    moreover have "int (length (str_join '' '' (cur @ [w]))) \<le> len + (int (length w) + 1)"
      using Cons.prems(3,4) by (auto simp: length_str_join_snoc)
    ultimately show ?thesis
      using Cons.IH [of chunks "len + (int (length w) + 1)" "cur @ [w]"] Cons.prems(1,2,3) True
      by simp
  next
    case False
    have "c \<in> set (chunk_loop L ws (if cur \<noteq> [] then chunks @ [str_join '' '' cur] else chunks)
                     [w] (int (length w)))"
      using Cons.prems(5) False by simp
    then show ?thesis
      using Cons.IH [of "if cur \<noteq> [] then chunks @ [str_join '' '' cur] else chunks"
                        "int (length w)" "[w]"] Cons.prems(1) flush
      by simp
  qed
qed

lemma chunk_loop_long_word:
  assumes "L < int (length w)" and "0 \<le> len"
    and "w \<in> set ws \<or> w \<in> set chunks \<or> (cur = [w] \<and> L < len)"
  shows "w \<in> set (chunk_loop L ws chunks cur len)"
  using assms
proof (induction ws arbitrary: chunks cur len)
  case Nil
  then show ?case by auto
next
  case (Cons v ws)
  show ?case
  proof (cases "len + int (length v) + 1 \<le> L")
    case True
    with Cons.prems have "w \<in> set ws \<or> w \<in> set chunks" by auto
    then show ?thesis
      using Cons.IH [of "len + (int (length v) + 1)" chunks "cur @ [v]"] Cons.prems(1,2) True
      by simp
  next
    case False
    have "w \<in> set ws \<or>
          w \<in> set (if cur \<noteq> [] then chunks @ [str_join '' '' cur] else chunks) \<or>
          ([v] = [w] \<and> L < int (length v))"
      using Cons.prems(1,3) by auto
    then show ?thesis
      using Cons.IH [of "int (length v)"
                        "if cur \<noteq> [] then chunks @ [str_join '' '' cur] else chunks" "[v]"]
        Cons.prems(1) False
      by simp
  qed
qed

lemma chunk_loop_first:
  assumes "\<forall>w \<in> set ws. word_ok w"
    and "(cur = [] \<and> len = 0) \<or>
         (cur \<noteq> [] \<and> int (length (str_join '' '' cur)) + 1 \<le> len \<and> len \<le> L) \<or>
         (\<exists>w. cur = [w] \<and> word_ok w \<and> L \<le> int (length w) \<and> len = int (length w))"
    and "chunk_loop L ws [] cur len = c # cs"
  shows "int (length c) \<le> L - 1 \<or> (str_split c = [c] \<and> L \<le> int (length c))"
  using assms
proof (induction ws arbitrary: cur len)
  case Nil
  then show ?case by (auto simp: str_split_word split: if_splits)
next
  case (Cons w ws)
  show ?case
  proof (cases "len + int (length w) + 1 \<le> L")
    case True
    with Cons.prems(2) have inv: "(cur = [] \<and> len = 0) \<or>
         (cur \<noteq> [] \<and> int (length (str_join '' '' cur)) + 1 \<le> len \<and> len \<le> L)"
      by auto
    have "cur @ [w] \<noteq> [] \<and>
          int (length (str_join '' '' (cur @ [w]))) + 1 \<le> len + (int (length w) + 1) \<and>
          len + (int (length w) + 1) \<le> L"
      using inv True by (auto simp: length_str_join_snoc)
    moreover have "chunk_loop L ws [] (cur @ [w]) (len + (int (length w) + 1)) = c # cs"
      using Cons.prems(3) True by simp
    ultimately show ?thesis
      using Cons.IH [of "cur @ [w]" "len + (int (length w) + 1)"] Cons.prems(1) by simp
  next
    case False
    show ?thesis
    proof (cases "cur = []")
      case True
      with Cons.prems(2) have "len = 0" by auto
      with False have "L \<le> int (length w)" by simp
      moreover have "chunk_loop L ws [] [w] (int (length w)) = c # cs"
        using Cons.prems(3) False True by simp
      ultimately show ?thesis
        using Cons.IH [of "[w]" "int (length w)"] Cons.prems(1) by simp
    next
      case nonempty: False
      have "chunk_loop L ws [str_join '' '' cur] [w] (int (length w)) = c # cs"
        using Cons.prems(3) False nonempty by simp
      then have "c = str_join '' '' cur"
        using chunk_loop_prefix [of L ws "[str_join '' '' cur]" "[w]" "int (length w)"] by simp
      with Cons.prems(2) nonempty show ?thesis
        by (auto simp: str_split_word)
    qed
  qed
qed

text \<open>
  Claim C2: for every input text and every maximum length \<open>L \<ge> 1\<close>, every chunk returned
  by \<open>chunk_text\<close> has string length at most \<open>L\<close>, except when the chunk consists of
  exactly one word whose own length exceeds \<open>L\<close>; and every such word forms its own
  oversized chunk.
\<close>

theorem chunk_text_bound:
  "1 \<le> L \<Longrightarrow>
   (\<forall>c \<in> set (chunk_text t L). int (length c) \<le> L \<or> (str_split c = [c] \<and> L < int (length c))) \<and>
   (\<forall>w \<in> set (str_split t). L < int (length w) \<longrightarrow> w \<in> set (chunk_text t L))"
proof (intro conjI ballI impI)
  fix c assume "c \<in> set (chunk_text t L)"
  then show "int (length c) \<le> L \<or> (str_split c = [c] \<and> L < int (length c))"
    using chunk_loop_bound [of "str_split t" "[]" L 0 "[]" c] str_split_words [of _ t]
    by (simp add: chunk_text_def)
next
  fix w assume "w \<in> set (str_split t)" "L < int (length w)"
  then show "w \<in> set (chunk_text t L)"
    using chunk_loop_long_word [of L w 0 "str_split t" "[]" "[]"] by (simp add: chunk_text_def)
qed

theorem chunk_text_bound_witness:
  "(1::int) \<le> 3 \<and> chunk_text ''aa b  c dddd e'' 3 = [''aa'', ''b c'', ''dddd'', ''e''] \<and>
   int (length ''aa'') \<le> 3 \<and> int (length ''b c'') \<le> 3 \<and> int (length ''e'') \<le> 3 \<and>
   str_split ''dddd'' = [''dddd''] \<and>
   ''dddd'' \<in> set (str_split ''aa b  c dddd e'') \<and> (3::int) < int (length ''dddd'') \<and>
   ''dddd'' \<in> set (chunk_text ''aa b  c dddd e'' 3)"
proof -
  have e: "chunk_text ''aa b  c dddd e'' 3 = [''aa'', ''b c'', ''dddd'', ''e'']"
    by (simp add: chunk_text_def str_split_def isspace_def whitespace_def)
  have s: "''dddd'' \<in> set (str_split ''aa b  c dddd e'')"
    by (simp add: str_split_def isspace_def whitespace_def)
  show ?thesis
    using chunk_text_bound [of 3 "''aa b  c dddd e''"] e s by simp
qed

text \<open>
  Claim C10: for every input text and every maximum length \<open>L \<ge> 1\<close>, the first chunk
  returned by \<open>chunk_text\<close> has length at most \<open>L - 1\<close> unless it is a single word of
  length at least \<open>L\<close> (the running counter charges a separator for the first word),
  while for some input a chunk after the first has length exactly \<open>L\<close> (a chunk started
  in the overflow branch is charged no separator for its first word).
\<close>

theorem chunk_text_first:
  "1 \<le> L \<Longrightarrow>
   (\<forall>c cs. chunk_text t L = c # cs \<longrightarrow>
      int (length c) \<le> L - 1 \<or> (str_split c = [c] \<and> L \<le> int (length c))) \<and>
   (\<exists>t' L' i. 1 \<le> L' \<and> 0 < i \<and> i < length (chunk_text t' L') \<and>
      int (length (chunk_text t' L' ! i)) = L')"
proof (intro conjI allI impI)
  fix c cs assume "chunk_text t L = c # cs"
  then show "int (length c) \<le> L - 1 \<or> (str_split c = [c] \<and> L \<le> int (length c))"
    using chunk_loop_first [of "str_split t" "[]" 0 L c cs] str_split_words [of _ t]
    by (simp add: chunk_text_def)
next
  have "chunk_text ''aa b c'' 3 = [''aa'', ''b c'']"
    by (simp add: chunk_text_def str_split_def isspace_def whitespace_def)
  then have "(1::int) \<le> 3 \<and> 0 < (1::nat) \<and> 1 < length (chunk_text ''aa b c'' 3) \<and>
      int (length (chunk_text ''aa b c'' 3 ! 1)) = 3"
    by simp
  then show "\<exists>t' L' i. 1 \<le> L' \<and> 0 < i \<and> i < length (chunk_text t' L') \<and>
      int (length (chunk_text t' L' ! i)) = L'"
    by blast
qed

theorem chunk_text_first_witness:
  "(1::int) \<le> 3 \<and> chunk_text ''aa b c'' 3 = [''aa'', ''b c''] \<and>
   (int (length ''aa'') \<le> 3 - 1 \<or> (str_split ''aa'' = [''aa''] \<and> 3 \<le> int (length ''aa''))) \<and>
   int (length ''b c'') = 3"
proof -
  have e: "chunk_text ''aa b c'' 3 = [''aa'', ''b c'']"
    by (simp add: chunk_text_def str_split_def isspace_def whitespace_def)
  show ?thesis
    using chunk_text_first [of 3 "''aa b c''"] e by simp
qed

subsection \<open>The empty text\<close>

text \<open>
  Claim C8: for every maximum length \<open>L \<ge> 1\<close>, \<open>chunk_text\<close> applied to the empty string
  returns the empty sequence of chunks.
\<close>

theorem chunk_text_empty: "1 \<le> L \<Longrightarrow> chunk_text [] L = []"
  by (simp add: chunk_text_def str_split_def)

theorem chunk_text_empty_witness: "(1::int) \<le> 1000 \<and> chunk_text [] 1000 = []"
  using chunk_text_empty [of 1000] by simp

section \<open>Properties of the answer selector\<close>

subsection \<open>The selected result\<close>

lemma selected_Nil: "selected [] j sb best best"
  by (simp add: selected_def)

lemma selected_skip:
  assumes r: "\<forall>y. cand_score r = Some y \<longrightarrow> y \<le> sb"
    and rest: "selected rs (Suc j) sb best d"
  shows "selected (r # rs) j sb best d"
proof -
  from rest consider
    (keep) "d = best" "\<forall>i<length rs. \<forall>y. cand_score (rs ! i) = Some y \<longrightarrow> y \<le> sb"
  | (take) k x where "k < length rs" "cand_score (rs ! k) = Some x" "sb < x"
      "d = dict_set (rs ! k) ''chunk_index'' (PInt (int (Suc j + k)))"
      "\<forall>i<length rs. \<forall>y. cand_score (rs ! i) = Some y \<longrightarrow> y \<le> x"
      "\<forall>i<k. \<forall>y. cand_score (rs ! i) = Some y \<longrightarrow> y < x"
    unfolding selected_def by blast
  then show ?thesis
  proof cases
    case keep
    have "\<forall>i<length (r # rs). \<forall>y. cand_score ((r # rs) ! i) = Some y \<longrightarrow> y \<le> sb"
      using r keep(2) by (simp add: nth_Cons split: nat.splits)
    with keep(1) show ?thesis unfolding selected_def by blast
  next
    case take
    have r': "\<forall>y. cand_score r = Some y \<longrightarrow> y < x"
      using r take(3) by fastforce
    have a: "Suc k < length (r # rs)" using take(1) by simp
    have b: "cand_score ((r # rs) ! Suc k) = Some x" using take(2) by simp
    have c: "d = dict_set ((r # rs) ! Suc k) ''chunk_index'' (PInt (int (j + Suc k)))"
      using take(4) by simp
    have e: "\<forall>i<length (r # rs). \<forall>y. cand_score ((r # rs) ! i) = Some y \<longrightarrow> y \<le> x"
      using r' take(5) by (simp add: nth_Cons split: nat.splits) fastforce
    have f: "\<forall>i<Suc k. \<forall>y. cand_score ((r # rs) ! i) = Some y \<longrightarrow> y < x"
      using r' take(6) by (simp add: nth_Cons split: nat.splits)
    show ?thesis unfolding selected_def using a b c e f take(3) by blast
  qed
qed

lemma selected_take:
  assumes r: "cand_score r = Some x" and gt: "sb < x"
    and rest: "selected rs (Suc j) x (dict_set r ''chunk_index'' (PInt (int j))) d"
  shows "selected (r # rs) j sb best d"
proof -
  from rest consider
    (keep) "d = dict_set r ''chunk_index'' (PInt (int j))"
      "\<forall>i<length rs. \<forall>y. cand_score (rs ! i) = Some y \<longrightarrow> y \<le> x"
  | (take) k z where "k < length rs" "cand_score (rs ! k) = Some z" "x < z"
      "d = dict_set (rs ! k) ''chunk_index'' (PInt (int (Suc j + k)))"
      "\<forall>i<length rs. \<forall>y. cand_score (rs ! i) = Some y \<longrightarrow> y \<le> z"
      "\<forall>i<k. \<forall>y. cand_score (rs ! i) = Some y \<longrightarrow> y < z"
    unfolding selected_def by blast
  then show ?thesis
  proof cases
    case keep
    have a: "0 < length (r # rs)" by simp
    have b: "cand_score ((r # rs) ! 0) = Some x" using r by simp
    have c: "d = dict_set ((r # rs) ! 0) ''chunk_index'' (PInt (int (j + 0)))"
      using keep(1) by simp
    have e: "\<forall>i<length (r # rs). \<forall>y. cand_score ((r # rs) ! i) = Some y \<longrightarrow> y \<le> x"
      using r keep(2) by (simp add: nth_Cons split: nat.splits)
    have f: "\<forall>i<(0::nat). \<forall>y. cand_score ((r # rs) ! i) = Some y \<longrightarrow> y < x" by simp
    show ?thesis unfolding selected_def using a b c e f gt by blast
  next
    case take
    have a: "Suc k < length (r # rs)" using take(1) by simp
    have b: "cand_score ((r # rs) ! Suc k) = Some z" using take(2) by simp
    have c: "d = dict_set ((r # rs) ! Suc k) ''chunk_index'' (PInt (int (j + Suc k)))"
      using take(4) by simp
    have e: "\<forall>i<length (r # rs). \<forall>y. cand_score ((r # rs) ! i) = Some y \<longrightarrow> y \<le> z"
      using r take(3,5) by (simp add: nth_Cons split: nat.splits)
    have f: "\<forall>i<Suc k. \<forall>y. cand_score ((r # rs) ! i) = Some y \<longrightarrow> y < z"
      using r take(3,6) by (simp add: nth_Cons split: nat.splits)
    have g: "sb < z" using gt take(3) by simp
    show ?thesis unfolding selected_def using a b c e f g by blast
  qed
qed

subsection \<open>The results of \<open>ask_question\<close>\<close>

lemma ask_question_calls:
  "pdf_text self \<noteq> [] \<Longrightarrow> snd (ask_question net self q ctx n) = Suc n"
  by (simp add: ask_question_def Let_def split: option.splits)

lemma ask_question_cases:
  "(\<exists>m. fst (ask_question net self q ctx n) = [(''error'', PStr m)]) \<or>
   (\<exists>a s b e. fst (ask_question net self q ctx n) =
      [(''answer'', a), (''score'', s), (''start'', b), (''end'', e)])"
proof -
  define c where "c = (case ctx of None \<Rightarrow> pdf_text self
                       | Some c \<Rightarrow> if c = [] then pdf_text self else c)"
  define req where "req = \<lparr>req_url = api_url self, req_headers = headers self,
      req_json = PDict [(''inputs'', PDict [(''question'', PStr q), (''context'', PStr c)])]\<rparr>"
  have unfold: "fst (ask_question net self q ctx n) =
     (if c = [] then no_pdf_text
      else (case net n req of
              Raised msg \<Rightarrow> [(''error'', PStr (''Error making API request: '' @ msg))]
            | Response status_code body text \<Rightarrow>
                if status_code = 200 then
                  (case body of
                     Inl msg \<Rightarrow> [(''error'', PStr (''Error making API request: '' @ msg))]
                   | Inr (PDict result) \<Rightarrow>
                       [(''answer'', dict_get result ''answer'' (PStr ''No answer found'')),
                        (''score'', dict_get result ''score'' (PInt 0)),
                        (''start'', dict_get result ''start'' (PInt 0)),
                        (''end'', dict_get result ''end'' (PInt 0))]
                   | Inr v \<Rightarrow>
                       [(''error'', PStr (''Error making API request: '' @
                           quoted (type_name v) @ '' object has no attribute '' @
                           quoted ''get''))])
                else if status_code = 404 then
                  [(''error'', PStr (''Model '' @ quoted (model_name self) @
                      '' not found. Try changing to a different model.''))]
                else if status_code = 503 then
                  [(''error'', PStr ''Model is loading. Please wait a moment and try again.'')]
                else
                  [(''error'', PStr (''API request failed: '' @ str_int status_code @
                      '' - '' @ text))]))"
    unfolding ask_question_def c_def req_def Let_def by (simp only: fst_conv if_distrib [of fst] if_cancel split: if_splits)
  show ?thesis
  proof (cases "c = []")
    case True
    then show ?thesis unfolding unfold no_pdf_text_def by simp
  next
    case False
    show ?thesis
    proof (cases "net n req")
      case (Raised msg)
      with False show ?thesis unfolding unfold by simp
    next
      case (Response status_code body rtext)
      show ?thesis
      proof (cases "status_code = 200")
        case ok: True
        show ?thesis
        proof (cases body)
          case (Inl msg)
          with False Response ok show ?thesis unfolding unfold by simp
        next
          case (Inr v)
          with False Response ok show ?thesis unfolding unfold by (cases v) simp_all
        qed
      next
        case other: False
        with False Response show ?thesis unfolding unfold by simp
      qed
    qed
  qed
qed

lemma length_chunk_results [simp]:
  "length (chunk_results net self q chunks n) = length chunks"
  by (induction chunks arbitrary: n) simp_all

lemma chunk_results_nth:
  "i < length chunks \<Longrightarrow>
   chunk_results net self q chunks n ! i = fst (ask_question net self q (Some (chunks ! i)) (n + i))"
proof (induction chunks arbitrary: n i)
  case Nil
  then show ?case by simp
next
  case (Cons c cs)
  then show ?case by (cases i) simp_all
qed

lemma candidate_keys:
  assumes "r = fst (ask_question net self q ctx n)" and "\<not> has_key r ''error''"
  shows "dict_index (dict_set r ''chunk_index'' v) ''score'' = Inr (dict_get r ''score'' (PInt 0))"
    and "has_key (dict_set r ''chunk_index'' v) ''chunk_index''"
    and "\<not> has_key (dict_set r ''chunk_index'' v) ''error''"
    and "dict_get (dict_set r ''chunk_index'' v) ''score'' (PInt 0) = dict_get r ''score'' (PInt 0)"
  using assms ask_question_cases [of net self q ctx n]
  by (auto simp: has_key_def dict_index_def dict_set_def dict_get_def)

subsection \<open>The selection loop\<close>

lemma select_loop_Cons:
  "pdf_text self \<noteq> [] \<Longrightarrow>
   select_loop net self q ((i, c) # rest) best n =
     (if has_key (fst (ask_question net self q (Some c) n)) ''error''
      then select_loop net self q rest best (Suc n)
      else (case dict_index best ''score'' of
              Inl e \<Rightarrow> (Inl e, Suc n)
            | Inr bs \<Rightarrow>
                (case py_gt (dict_get (fst (ask_question net self q (Some c) n)) ''score'' (PInt 0)) bs of
                   Inl e \<Rightarrow> (Inl e, Suc n)
                 | Inr b \<Rightarrow>
                     if b then select_loop net self q rest
                                 (dict_set (fst (ask_question net self q (Some c) n))
                                    ''chunk_index'' (PInt (int i))) (Suc n)
                     else select_loop net self q rest best (Suc n))))"
  using ask_question_calls [of self net q "Some c" n]
  by (simp add: case_prod_beta)

text \<open>
  The score of the best answer is a number throughout: the sentinel's is, and a result
  becomes the best answer only after its score has been compared as a number.
\<close>

lemma select_loop_score:
  assumes "r = fst (ask_question net self q ctx n)" and "\<not> has_key r ''error''"
    and "py_gt (dict_get r ''score'' (PInt 0)) bs = Inr b"
  shows "\<exists>s x. dict_index (dict_set r ''chunk_index'' v) ''score'' = Inr s \<and> num_val s = Some x"
proof -
  from assms(3) obtain x where "num_val (dict_get r ''score'' (PInt 0)) = Some x"
    by (auto simp: py_gt_def split: option.splits)
  with candidate_keys(1) [OF assms(1,2), of v] show ?thesis by simp
qed

lemma select_loop_selected:
  assumes "pdf_text self \<noteq> []"
    and "dict_index best ''score'' = Inr bs" and "num_val bs = Some sb"
    and "\<forall>r \<in> set (chunk_results net self q chunks n). well_scored r"
  shows "\<exists>d. select_loop net self q (enumerate j chunks) best n = (Inr d, n + length chunks) \<and>
             selected (chunk_results net self q chunks n) j sb best d"
  using assms
proof (induction chunks arbitrary: j n best bs sb)
  case Nil
  then show ?case by (simp add: selected_Nil)
next
  case (Cons c cs)
  define r where "r = fst (ask_question net self q (Some c) n)"
  have rest: "\<forall>r \<in> set (chunk_results net self q cs (Suc n)). well_scored r"
    using Cons.prems(4) by simp
  have wr: "well_scored r" using Cons.prems(4) by (simp add: r_def)
  note step = select_loop_Cons [OF Cons.prems(1), of net q j c "enumerate (Suc j) cs" best n,
      folded r_def]
  show ?case
  proof (cases "has_key r ''error''")
    case True
    from Cons.IH [OF Cons.prems(1,2,3) rest, of "Suc j"]
    obtain d where d: "select_loop net self q (enumerate (Suc j) cs) best (Suc n) =
          (Inr d, Suc n + length cs)"
        "selected (chunk_results net self q cs (Suc n)) (Suc j) sb best d" by blast
    have "cand_score r = None" using True by (simp add: cand_score_def)
    then have "selected (r # chunk_results net self q cs (Suc n)) j sb best d"
      using d(2) by (intro selected_skip) simp_all
    then show ?thesis using d(1) True step by (simp add: enumerate_simps r_def)
  next
    case False
    with wr obtain x where x: "num_val (dict_get r ''score'' (PInt 0)) = Some x"
      by (auto simp: well_scored_def)
    have cs: "cand_score r = Some x" using False x by (simp add: cand_score_def)
    have gt: "py_gt (dict_get r ''score'' (PInt 0)) bs = Inr (sb < x)"
      using x Cons.prems(3) by (simp add: py_gt_def)
    show ?thesis
    proof (cases "sb < x")
      case True
      have b: "dict_index (dict_set r ''chunk_index'' (PInt (int j))) ''score'' =
          Inr (dict_get r ''score'' (PInt 0))"
        using candidate_keys(1) [OF r_def False] .
      from Cons.IH [OF Cons.prems(1) b x rest, of "Suc j"]
      obtain d where d: "select_loop net self q (enumerate (Suc j) cs)
            (dict_set r ''chunk_index'' (PInt (int j))) (Suc n) = (Inr d, Suc n + length cs)"
          "selected (chunk_results net self q cs (Suc n)) (Suc j) x
             (dict_set r ''chunk_index'' (PInt (int j))) d" by blast
      have "selected (r # chunk_results net self q cs (Suc n)) j sb best d"
        using cs True d(2) by (rule selected_take)
      then show ?thesis using d(1) True False step gt Cons.prems(2)
        by (simp add: enumerate_simps r_def)
    next
      case le: False
      from Cons.IH [OF Cons.prems(1,2,3) rest, of "Suc j"]
      obtain d where d: "select_loop net self q (enumerate (Suc j) cs) best (Suc n) =
            (Inr d, Suc n + length cs)"
          "selected (chunk_results net self q cs (Suc n)) (Suc j) sb best d" by blast
      have "selected (r # chunk_results net self q cs (Suc n)) j sb best d"
        using d(2) cs le by (intro selected_skip) simp_all
      then show ?thesis using d(1) le False step gt Cons.prems(2)
        by (simp add: enumerate_simps r_def)
    qed
  qed
qed

lemma select_loop_Inr:
  assumes "pdf_text self \<noteq> []"
    and "dict_index best ''score'' = Inr bs" and "num_val bs = Some sb"
    and "select_loop net self q (enumerate j chunks) best n = (Inr d, n')"
  shows "\<forall>r \<in> set (chunk_results net self q chunks n). well_scored r"
  using assms
proof (induction chunks arbitrary: j n best bs sb)
  case Nil
  then show ?case by simp
next
  case (Cons c cs)
  define r where "r = fst (ask_question net self q (Some c) n)"
  note step = select_loop_Cons [OF Cons.prems(1), of net q j c "enumerate (Suc j) cs" best n,
      folded r_def]
  have loop: "select_loop net self q ((j, c) # enumerate (Suc j) cs) best n = (Inr d, n')"
    using Cons.prems(4) by (simp add: enumerate_simps)
  show ?case
  proof (cases "has_key r ''error''")
    case True
    then have "select_loop net self q (enumerate (Suc j) cs) best (Suc n) = (Inr d, n')"
      using loop step by simp
    from Cons.IH [OF Cons.prems(1,2,3) this] True show ?thesis
      by (simp add: well_scored_def r_def)
  next
    case False
    show ?thesis
    proof (cases "num_val (dict_get r ''score'' (PInt 0))")
      case None
      then have "py_gt (dict_get r ''score'' (PInt 0)) bs =
          Inl (TypeError (quoted ''>'' @ '' not supported between instances of '' @
                  quoted (type_name (dict_get r ''score'' (PInt 0))) @ '' and '' @
                  quoted (type_name bs)))"
        by (simp add: py_gt_def)
      with loop step False Cons.prems(2) show ?thesis by simp
    next
      case (Some x)
      have wr: "well_scored r" using Some by (simp add: well_scored_def)
      have gt: "py_gt (dict_get r ''score'' (PInt 0)) bs = Inr (sb < x)"
        using Some Cons.prems(3) by (simp add: py_gt_def)
      show ?thesis
      proof (cases "sb < x")
        case True
        have b: "dict_index (dict_set r ''chunk_index'' (PInt (int j))) ''score'' =
            Inr (dict_get r ''score'' (PInt 0))"
          using candidate_keys(1) [OF r_def False] .
        have "select_loop net self q (enumerate (Suc j) cs)
            (dict_set r ''chunk_index'' (PInt (int j))) (Suc n) = (Inr d, n')"
          using loop step False gt True Cons.prems(2) by simp
        from Cons.IH [OF Cons.prems(1) b Some this] wr show ?thesis by (simp add: r_def)
      next
        case le: False
        have "select_loop net self q (enumerate (Suc j) cs) best (Suc n) = (Inr d, n')"
          using loop step False gt le Cons.prems(2) by simp
        from Cons.IH [OF Cons.prems(1,2,3) this] wr show ?thesis by (simp add: r_def)
      qed
    qed
  qed
qed

lemma sentinel_score: "dict_index sentinel ''score'' = Inr (PInt 0)"
  by (simp add: sentinel_def dict_index_def)

lemma chunking_selected:
  assumes "pdf_text self \<noteq> []"
    and "\<forall>r \<in> set (chunk_results net self q (chunk_text (pdf_text self) 1000) n). well_scored r"
  shows "\<exists>d. ask_question_with_chunking net self q n =
               (Inr d, n + length (chunk_text (pdf_text self) 1000)) \<and>
             selected (chunk_results net self q (chunk_text (pdf_text self) 1000) n) 0 0 sentinel d"
  using select_loop_selected [OF assms(1) sentinel_score _ assms(2), of 0 0] assms(1)
  by (simp add: ask_question_with_chunking_def)

lemma chunking_Inr:
  assumes "pdf_text self \<noteq> []"
    and "ask_question_with_chunking net self q n = (Inr d, n')"
  shows "\<forall>r \<in> set (chunk_results net self q (chunk_text (pdf_text self) 1000) n). well_scored r"
proof -
  have "select_loop net self q (enumerate 0 (chunk_text (pdf_text self) 1000)) sentinel n =
      (Inr d, n')"
    using assms by (simp add: ask_question_with_chunking_def)
  from select_loop_Inr [OF assms(1) sentinel_score _ this] show ?thesis by simp
qed

lemma sentinel_keys:
  "\<not> has_key sentinel ''chunk_index''" "\<not> has_key sentinel ''error''"
  by (simp_all add: sentinel_def has_key_def)

lemma error_not_scored: "has_key r ''error'' \<Longrightarrow> cand_score r = None"
  by (simp add: cand_score_def)

subsection \<open>Running the examples\<close>

lemma ask_question_refused:
  "c \<noteq> [] \<Longrightarrow> length outs \<le> n \<Longrightarrow>
   ask_question (scripted outs) self q (Some c) n =
     ([(''error'', PStr ''Error making API request: connection refused'')], Suc n)"
  by (simp add: ask_question_def scripted_def)

lemma chunk_text_a_b: "chunk_text ''a b'' 1000 = [''a b'']"
  by (simp add: chunk_text_def str_split_def isspace_def whitespace_def)

subsection \<open>Errors of single chunks\<close>

text \<open>
  Claim C5, as the code has it: for every document, a chunk whose call of \<open>ask_question\<close>
  returns an error never replaces the best answer so far and never ends the search: the
  loop goes on with the next chunk and the same best answer. For every non-empty
  document, if every chunk returns an error, \<open>ask_question_with_chunking\<close> returns the
  sentinel, which has no key \<open>chunk_index\<close>, as a normal answer (\<open>Inr\<close>, and without the
  key \<open>error\<close>), after one call per chunk.
\<close>

theorem errors_are_skipped:
  "(has_key (fst (ask_question net self q (Some c) n)) ''error'' \<longrightarrow>
      select_loop net self q ((i, c) # rest) best n =
      select_loop net self q rest best (snd (ask_question net self q (Some c) n))) \<and>
   (pdf_text self \<noteq> [] \<and>
    (\<forall>r \<in> set (search_results net self q n). has_key r ''error'') \<longrightarrow>
      ask_question_with_chunking net self q n =
        (Inr sentinel, n + length (chunk_text (pdf_text self) 1000)) \<and>
      \<not> has_key sentinel ''chunk_index'' \<and> \<not> has_key sentinel ''error'')"
proof (intro conjI impI)
  assume "has_key (fst (ask_question net self q (Some c) n)) ''error''"
  then show "select_loop net self q ((i, c) # rest) best n =
      select_loop net self q rest best (snd (ask_question net self q (Some c) n))"
    by (simp add: case_prod_beta)
next
  assume a: "pdf_text self \<noteq> [] \<and>
    (\<forall>r \<in> set (search_results net self q n). has_key r ''error'')"
  define rs where "rs = chunk_results net self q (chunk_text (pdf_text self) 1000) n"
  from a have err: "\<forall>r \<in> set rs. has_key r ''error''" by (simp add: rs_def search_results_def)
  then have "\<forall>r \<in> set rs. well_scored r" by (simp add: well_scored_def)
  from chunking_selected [OF _ this [unfolded rs_def]] a
  obtain d where d: "ask_question_with_chunking net self q n =
        (Inr d, n + length (chunk_text (pdf_text self) 1000))"
      "selected rs 0 0 sentinel d" unfolding rs_def by blast
  have "\<forall>k<length rs. cand_score (rs ! k) = None"
    using err by (simp add: error_not_scored)
  with d(2) have "d = sentinel" unfolding selected_def by auto
  with d(1) show "ask_question_with_chunking net self q n =
        (Inr sentinel, n + length (chunk_text (pdf_text self) 1000))" by simp
qed (rule sentinel_keys)+

theorem errors_are_skipped_witness:
  "has_key (fst (ask_question (scripted []) (document ''a b'') ''q'' (Some ''a b'') 0)) ''error'' \<and>
   select_loop (scripted []) (document ''a b'') ''q'' [(0, ''a b'')] sentinel 0 =
     (Inr sentinel, 1) \<and>
   pdf_text (document ''a b'') \<noteq> [] \<and>
   search_results (scripted []) (document ''a b'') ''q'' 0 =
     [[(''error'', PStr ''Error making API request: connection refused'')]] \<and>
   ask_question_with_chunking (scripted []) (document ''a b'') ''q'' 0 = (Inr sentinel, 1)"
proof -
  have t: "pdf_text (document ''a b'') = ''a b''" by (simp add: document_def)
  have r: "ask_question (scripted []) (document ''a b'') ''q'' (Some ''a b'') 0 =
      ([(''error'', PStr ''Error making API request: connection refused'')], Suc 0)"
    by (rule ask_question_refused) simp_all
  have rs: "search_results (scripted []) (document ''a b'') ''q'' 0 =
      [[(''error'', PStr ''Error making API request: connection refused'')]]"
    by (simp add: search_results_def t chunk_text_a_b r)
  show ?thesis
    using errors_are_skipped [where net = "scripted []" and self = "document ''a b''"
        and q = "''q''" and c = "''a b''" and n = 0 and i = 0 and rest = "[]"
        and best = sentinel]
    by (simp add: t r rs chunk_text_a_b has_key_def)
qed

text \<open>
  For the empty document, the state that the constructor makes, the second part fails:
  there is no chunk, so every chunk returns an error, and the result is the error
  "No PDF text available", not the sentinel.
\<close>

theorem errors_are_skipped_counterexample:
  "document_state (init ''token'' ''deepset/roberta-base-squad2'') \<and>
   search_results (scripted []) (init ''token'' ''deepset/roberta-base-squad2'') ''q'' 0 = [] \<and>
   ask_question_with_chunking (scripted []) (init ''token'' ''deepset/roberta-base-squad2'')
     ''q'' 0 = (Inr no_pdf_text, 0) \<and>
   has_key no_pdf_text ''error'' \<and>
   ask_question_with_chunking (scripted []) (init ''token'' ''deepset/roberta-base-squad2'')
     ''q'' 0 \<noteq> (Inr sentinel, 0)"
proof -
  have "search_results (scripted []) (init ''token'' ''deepset/roberta-base-squad2'') ''q'' 0 = []"
    by (simp add: search_results_def init_def chunk_text_def str_split_def)
  moreover have "ask_question_with_chunking (scripted [])
      (init ''token'' ''deepset/roberta-base-squad2'') ''q'' 0 = (Inr no_pdf_text, 0)"
    by (simp add: ask_question_with_chunking_def init_def)
  moreover have "has_key no_pdf_text ''error''" "no_pdf_text \<noteq> sentinel"
    by (simp_all add: no_pdf_text_def sentinel_def has_key_def)
  ultimately show ?thesis by (simp add: document_state.constructed)
qed
subsection \<open>Documents without chunks\<close>

lemma split_aux_nonempty: "w \<noteq> [] \<Longrightarrow> split_aux cs w \<noteq> []"
  by (induction cs arbitrary: w) simp_all

lemma chunk_loop_nonempty: "ws \<noteq> [] \<or> cur \<noteq> [] \<or> chunks \<noteq> [] \<Longrightarrow> chunk_loop L ws chunks cur len \<noteq> []"
proof (induction ws arbitrary: chunks cur len)
  case Nil
  then show ?case by auto
next
  case (Cons w ws)
  show ?case
    using Cons.IH [of "cur @ [w]" chunks "len + (int (length w) + 1)"]
      Cons.IH [of "[w]" "if cur \<noteq> [] then chunks @ [str_join '' '' cur] else chunks" "int (length w)"]
    by simp
qed

lemma stripped_text_has_chunk:
  assumes "str_strip t \<noteq> []"
  shows "chunk_text (str_strip t) L \<noteq> []"
proof -
  have ne: "dropWhile isspace t \<noteq> []"
  proof
    assume "dropWhile isspace t = []"
    then have "str_strip t = []" by (simp only: str_strip_def rev.simps dropWhile.simps)
    with assms show False by simp
  qed
  then obtain c cs where t: "dropWhile isspace t = c # cs" by (cases "dropWhile isspace t") auto
  then have c: "\<not> isspace c" using hd_dropWhile [of isspace t] ne by fastforce
  have "\<exists>cs'. str_strip t = c # cs'"
  proof -
    have "dropWhile isspace (rev cs @ [c]) = dropWhile isspace (rev cs) @ [c] \<or>
        dropWhile isspace (rev cs @ [c]) = [c]"
      using c by (simp add: dropWhile_append)
    then have "rev (dropWhile isspace (rev cs @ [c])) = c # rev (dropWhile isspace (rev cs)) \<or>
        rev (dropWhile isspace (rev cs @ [c])) = [c]"
      by auto
    then show ?thesis unfolding str_strip_def t rev.simps by blast
  qed
  then obtain cs' where s: "str_strip t = c # cs'" by blast
  have "str_split (str_strip t) \<noteq> []"
    unfolding s str_split_def using c split_aux_nonempty [of "[c]" cs'] by simp
  then show ?thesis unfolding chunk_text_def by (rule_tac chunk_loop_nonempty) simp
qed

lemma document_state_chunks:
  "document_state self \<Longrightarrow> pdf_text self = [] \<or> chunk_text (pdf_text self) L \<noteq> []"
proof (induction rule: document_state.induct)
  case (constructed token name)
  show ?case by (simp add: init_def)
next
  case (extracted self reader)
  then show ?case
    by (cases reader)
      (auto simp: extract_text_from_pdf_def Let_def stripped_text_has_chunk)
next
  case (changed self name)
  then show ?case by (simp add: change_model_def)
qed

text \<open>
  Claim C6: for every document state, if no chunk is processed or the document text is
  empty, \<open>ask_question_with_chunking\<close> returns the error "No PDF text available" and calls
  the network zero times. The document states are those that the constructor and the
  methods of the class produce; in them the text is stripped, so that a text without a
  chunk is the empty text.
\<close>

theorem no_text_no_scoring:
  "document_state self \<Longrightarrow>
   chunk_text (pdf_text self) 1000 = [] \<or> pdf_text self = [] \<Longrightarrow>
   ask_question_with_chunking net self q n = (Inr no_pdf_text, n)"
  using document_state_chunks [of self 1000]
  by (auto simp: ask_question_with_chunking_def)

theorem no_text_no_scoring_witness:
  "document_state (init ''token'' ''deepset/roberta-base-squad2'') \<and>
   pdf_text (init ''token'' ''deepset/roberta-base-squad2'') = [] \<and>
   ask_question_with_chunking (scripted []) (init ''token'' ''deepset/roberta-base-squad2'')
     ''q'' 0 = (Inr no_pdf_text, 0) \<and>
   document_state (snd (extract_text_from_pdf (Pages ['' ''])
     (init ''token'' ''deepset/roberta-base-squad2''))) \<and>
   chunk_text (pdf_text (snd (extract_text_from_pdf (Pages ['' ''])
     (init ''token'' ''deepset/roberta-base-squad2'')))) 1000 = [] \<and>
   ask_question_with_chunking (scripted [])
     (snd (extract_text_from_pdf (Pages ['' ''])
        (init ''token'' ''deepset/roberta-base-squad2''))) ''q'' 0 = (Inr no_pdf_text, 0)"
proof -
  define s0 where "s0 = init ''token'' ''deepset/roberta-base-squad2''"
  define s1 where "s1 = snd (extract_text_from_pdf (Pages ['' '']) s0)"
  have d0: "document_state s0" unfolding s0_def by (rule document_state.constructed)
  have d1: "document_state s1" unfolding s1_def using d0 by (rule document_state.extracted)
  have t0: "pdf_text s0 = []" by (simp add: s0_def init_def)
  have t1: "pdf_text s1 = []"
    by (simp add: s1_def extract_text_from_pdf_def str_strip_def isspace_def whitespace_def)
  have c1: "chunk_text (pdf_text s1) 1000 = []"
    by (simp add: t1 chunk_text_def str_split_def)
  have r0: "ask_question_with_chunking (scripted []) s0 ''q'' 0 = (Inr no_pdf_text, 0)"
    using no_text_no_scoring [OF d0, of "scripted []" "''q''" 0] t0 by simp
  have r1: "ask_question_with_chunking (scripted []) s1 ''q'' 0 = (Inr no_pdf_text, 0)"
    using no_text_no_scoring [OF d1, of "scripted []" "''q''" 0] c1 by simp
  show ?thesis using d0 d1 t0 c1 r0 r1 unfolding s0_def s1_def by blast
qed

text \<open>
  The restriction to the states of the class matters: a text of one space, which no
  method stores, passes the guard and gives the sentinel.
\<close>

lemma unstripped_text_sentinel:
  "chunk_text (pdf_text (document '' '')) 1000 = [] \<and>
   ask_question_with_chunking (scripted []) (document '' '') ''q'' 0 = (Inr sentinel, 0)"
proof -
  have c: "chunk_text '' '' 1000 = []"
    by (simp add: chunk_text_def str_split_def)
  show ?thesis
    by (simp add: ask_question_with_chunking_def document_def c)
qed

subsection \<open>The entry point\<close>

text \<open>
  Claim C7: a request to the entry point in which the model or the prompt is missing
  (the form field is absent or empty) is answered at once with status 400 and the message
  "Model and prompt are required.", and the network is called zero times.
\<close>

theorem process_requires_model_and_prompt:
  "hf_model request = None \<or> hf_model request = Some [] \<or>
   prompt request = None \<or> prompt request = Some [] \<Longrightarrow>
   process net request n =
     (Reply 400 [(''status'', PStr ''error''),
                 (''message'', PStr ''Model and prompt are required.'')], n)"
  by (auto simp: process_def truthy_def Let_def)

theorem process_requires_model_and_prompt_witness:
  "hf_model \<lparr>form_file = None, hf_model = None, hf_token = Some ''dummy'',
             prompt = Some ''What is AI?''\<rparr> = None \<and>
   process (scripted []) \<lparr>form_file = None, hf_model = None, hf_token = Some ''dummy'',
             prompt = Some ''What is AI?''\<rparr> 0 =
     (Reply 400 [(''status'', PStr ''error''),
                 (''message'', PStr ''Model and prompt are required.'')], 0)"
  using process_requires_model_and_prompt [where net = "scripted []" and n = 0
      and request = "\<lparr>form_file = None, hf_model = None, hf_token = Some ''dummy'',
             prompt = Some ''What is AI?''\<rparr>"]
  by simp
subsection \<open>The best answer\<close>

lemma search_results_nth:
  "i < length (search_results net self q n) \<Longrightarrow>
   search_results net self q n ! i =
     fst (ask_question net self q (Some (chunk_text (pdf_text self) 1000 ! i)) (n + i))"
  by (simp add: search_results_def chunk_results_nth)

lemma search_results_text:
  "i < length (search_results net self q n) \<Longrightarrow> pdf_text self \<noteq> []"
  by (auto simp: search_results_def chunk_text_def str_split_def)

lemma scored_result:
  assumes "i < length (search_results net self q n)"
    and "cand_score (search_results net self q n ! i) = Some x"
  shows "dict_index (dict_set (search_results net self q n ! i) ''chunk_index'' v) ''score'' =
           Inr (dict_get (search_results net self q n ! i) ''score'' (PInt 0))"
    and "num_val (dict_get (search_results net self q n ! i) ''score'' (PInt 0)) = Some x"
    and "has_key (dict_set (search_results net self q n ! i) ''chunk_index'' v) ''chunk_index''"
proof -
  from assms(2) have ne: "\<not> has_key (search_results net self q n ! i) ''error''"
    by (simp add: cand_score_def split: if_splits)
  from assms(2) show "num_val (dict_get (search_results net self q n ! i) ''score'' (PInt 0)) = Some x"
    by (simp add: cand_score_def split: if_splits)
  show "dict_index (dict_set (search_results net self q n ! i) ''chunk_index'' v) ''score'' =
           Inr (dict_get (search_results net self q n ! i) ''score'' (PInt 0))"
    using candidate_keys(1) [OF search_results_nth [OF assms(1)] ne] .
  show "has_key (dict_set (search_results net self q n ! i) ''chunk_index'' v) ''chunk_index''"
    using candidate_keys(2) [OF search_results_nth [OF assms(1)] ne] .
qed

lemma search_selected:
  assumes "pdf_text self \<noteq> []"
    and "\<forall>r \<in> set (search_results net self q n). well_scored r"
  shows "\<exists>d. ask_question_with_chunking net self q n =
               (Inr d, n + length (search_results net self q n)) \<and>
             selected (search_results net self q n) 0 0 sentinel d"
  using chunking_selected [OF assms(1), of net q n] assms(2)
  by (simp add: search_results_def)

lemma scored_well: "cand_score r \<noteq> None \<Longrightarrow> well_scored r"
  by (simp add: cand_score_def well_scored_def split: if_splits)

lemma no_positive_score:
  assumes "pdf_text self \<noteq> []"
    and "\<forall>r \<in> set (search_results net self q n). well_scored r"
    and "\<forall>r \<in> set (search_results net self q n). \<forall>y. cand_score r = Some y \<longrightarrow> y \<le> 0"
  shows "ask_question_with_chunking net self q n =
           (Inr sentinel, n + length (search_results net self q n))"
proof -
  from search_selected [OF assms(1,2)]
  obtain d where d: "ask_question_with_chunking net self q n =
        (Inr d, n + length (search_results net self q n))"
      "selected (search_results net self q n) 0 0 sentinel d" by blast
  have "\<not> (\<exists>k<length (search_results net self q n). \<exists>x.
      cand_score (search_results net self q n ! k) = Some x \<and> 0 < x)"
    using assms(3) by (fastforce simp: in_set_conv_nth)
  with d(2) have "d = sentinel" unfolding selected_def by blast
  with d(1) show ?thesis by simp
qed

lemma long_word_length: "length long_word = 1000"
  by (simp add: long_word_def)

lemma long_word_nonempty: "long_word \<noteq> []"
  using long_word_length by auto

lemma long_word_ok: "word_ok long_word"
  by (simp add: word_ok_def long_word_nonempty) (simp add: long_word_def isspace_def whitespace_def)

lemma chunk_text_two: "chunk_text two_words 1000 = [long_word, long_word]"
proof -
  have "str_split two_words = [long_word, long_word]"
    using long_word_ok by (simp add: two_words_def str_split_word_space str_split_word)
  then show ?thesis
    by (simp add: chunk_text_def long_word_length)
qed

lemma chunk_text_three: "chunk_text three_words 1000 = [long_word, long_word, long_word]"
proof -
  have "str_split three_words = [long_word, long_word, long_word]"
    using long_word_ok by (simp add: three_words_def str_split_word_space str_split_word)
  then show ?thesis
    by (simp add: chunk_text_def long_word_length)
qed

lemma chunk_text_a: "chunk_text ''a'' 1000 = [''a'']"
  by (simp add: chunk_text_def str_split_def isspace_def whitespace_def)

lemma two_words_nonempty: "two_words \<noteq> []"
  by (simp add: two_words_def)

lemma three_words_nonempty: "three_words \<noteq> []"
  by (simp add: three_words_def)

lemma pdf_text_document: "pdf_text (document t) = t"
  by (simp add: document_def)

lemma cand_score_candidate: "cand_score (candidate a s) = Some s"
  by (simp add: cand_score_def candidate_def has_key_def dict_get_def)

lemma well_scored_candidate: "well_scored (candidate a s)"
  by (simp add: well_scored_def candidate_def has_key_def dict_get_def)

lemma candidate_index:
  "dict_set (candidate a s) ''chunk_index'' v =
     [(''answer'', PStr a), (''score'', PFloat s), (''start'', PInt 0), (''end'', PInt 1),
      (''chunk_index'', v)]"
  by (simp add: candidate_def dict_set_def)

lemma search_results_one:
  "chunk_text t 1000 = [c0] \<Longrightarrow> c0 \<noteq> [] \<Longrightarrow>
   search_results (scripted [scored a0 s0]) (document t) q 0 = [candidate a0 s0]"
  by (simp add: search_results_def pdf_text_document ask_question_def scripted_def scored_def
      candidate_def dict_get_def)

lemma search_results_two:
  "chunk_text t 1000 = [c0, c1] \<Longrightarrow> c0 \<noteq> [] \<Longrightarrow> c1 \<noteq> [] \<Longrightarrow>
   search_results (scripted [scored a0 s0, scored a1 s1]) (document t) q 0 =
     [candidate a0 s0, candidate a1 s1]"
  by (simp add: search_results_def pdf_text_document ask_question_def scripted_def scored_def
      candidate_def dict_get_def)

lemma search_results_three:
  "chunk_text t 1000 = [c0, c1, c2] \<Longrightarrow> c0 \<noteq> [] \<Longrightarrow> c1 \<noteq> [] \<Longrightarrow> c2 \<noteq> [] \<Longrightarrow>
   search_results (scripted [scored a0 s0, scored a1 s1, scored a2 s2]) (document t) q 0 =
     [candidate a0 s0, candidate a1 s1, candidate a2 s2]"
  by (simp add: search_results_def pdf_text_document ask_question_def scripted_def scored_def
      candidate_def dict_get_def)

text \<open>
  Claim C3, as the code has it: for every document whose chunks all score successfully
  and at least one of which scores strictly above 0, \<open>ask_question_with_chunking\<close> returns
  the answer candidate with the maximum score across all chunks, with the key
  \<open>chunk_index\<close> set to the index of the chunk that produced it; in particular, for a
  document of three chunks that score 0.2, 0.9 and 0.5, it returns the candidate scoring
  0.9 with \<open>chunk_index = 1\<close>.
\<close>

theorem best_answer_is_maximum:
  "((\<forall>i<length (search_results net self q n). cand_score (search_results net self q n ! i) \<noteq> None) \<and>
    (\<exists>i<length (search_results net self q n). \<exists>y.
        cand_score (search_results net self q n ! i) = Some y \<and> 0 < y) \<longrightarrow>
    (\<exists>k<length (search_results net self q n). \<exists>x.
        cand_score (search_results net self q n ! k) = Some x \<and>
        (\<forall>i<length (search_results net self q n). \<forall>y.
            cand_score (search_results net self q n ! i) = Some y \<longrightarrow> y \<le> x) \<and>
        fst (ask_question_with_chunking net self q n) =
          Inr (dict_set (search_results net self q n ! k) ''chunk_index'' (PInt (int k))))) \<and>
   (length (search_results net self q n) = 3 \<and>
    cand_score (search_results net self q n ! 0) = Some 0.2 \<and>
    cand_score (search_results net self q n ! 1) = Some 0.9 \<and>
    cand_score (search_results net self q n ! 2) = Some 0.5 \<longrightarrow>
    fst (ask_question_with_chunking net self q n) =
      Inr (dict_set (search_results net self q n ! 1) ''chunk_index'' (PInt 1)))"
proof -
  define rs where "rs = search_results net self q n"
  have general: "\<exists>k<length rs. \<exists>x. cand_score (rs ! k) = Some x \<and>
        (\<forall>i<length rs. \<forall>y. cand_score (rs ! i) = Some y \<longrightarrow> y \<le> x) \<and>
        fst (ask_question_with_chunking net self q n) =
          Inr (dict_set (rs ! k) ''chunk_index'' (PInt (int k)))"
    if all: "\<forall>i<length rs. cand_score (rs ! i) \<noteq> None"
      and pos: "\<exists>i<length rs. \<exists>y. cand_score (rs ! i) = Some y \<and> 0 < y"
  proof -
    from pos have t: "pdf_text self \<noteq> []"
      using search_results_text [of _ net self q n] by (auto simp: rs_def)
    from all have "\<forall>r \<in> set rs. well_scored r"
      by (auto simp: in_set_conv_nth scored_well)
    from search_selected [OF t this [unfolded rs_def]]
    obtain d where d: "ask_question_with_chunking net self q n = (Inr d, n + length rs)"
        "selected rs 0 0 sentinel d" unfolding rs_def by blast
    from d(2) pos obtain k x where "k < length rs" "cand_score (rs ! k) = Some x"
        "d = dict_set (rs ! k) ''chunk_index'' (PInt (int (0 + k)))"
        "\<forall>i<length rs. \<forall>y. cand_score (rs ! i) = Some y \<longrightarrow> y \<le> x"
      unfolding selected_def by fastforce
    with d(1) show ?thesis by auto
  qed
  have three: "fst (ask_question_with_chunking net self q n) =
      Inr (dict_set (rs ! 1) ''chunk_index'' (PInt 1))"
    if len: "length rs = 3" and s0: "cand_score (rs ! 0) = Some 0.2"
      and s1: "cand_score (rs ! 1) = Some 0.9" and s2: "cand_score (rs ! 2) = Some 0.5"
  proof -
    have cases: "i = 0 \<or> i = 1 \<or> i = 2" if "i < length rs" for i
      using that len by auto
    have all: "\<forall>i<length rs. cand_score (rs ! i) \<noteq> None"
      using cases s0 s1 s2 by fastforce
    have "1 < length rs \<and> cand_score (rs ! 1) = Some 0.9 \<and> (0::real) < 0.9"
      using s1 len by simp
    then have pos: "\<exists>i<length rs. \<exists>y. cand_score (rs ! i) = Some y \<and> 0 < y"
      by blast
    from general [OF all pos] obtain k x where k: "k < length rs"
        "cand_score (rs ! k) = Some x"
        "\<forall>i<length rs. \<forall>y. cand_score (rs ! i) = Some y \<longrightarrow> y \<le> x"
        "fst (ask_question_with_chunking net self q n) =
          Inr (dict_set (rs ! k) ''chunk_index'' (PInt (int k)))" by blast
    have "1 < length rs" using len by simp
    with k(3) s1 have "0.9 \<le> x" by blast
    with cases [OF k(1)] k(2) s0 s2 have "k = 1" by auto
    with k(4) show ?thesis by simp
  qed
  show ?thesis using general three unfolding rs_def by blast
qed

theorem best_answer_is_maximum_witness:
  "search_results (scripted [scored ''first'' 0.2, scored ''second'' 0.9, scored ''third'' 0.5])
     (document three_words) ''q'' 0 =
     [candidate ''first'' 0.2, candidate ''second'' 0.9, candidate ''third'' 0.5] \<and>
   cand_score (candidate ''first'' 0.2) = Some 0.2 \<and>
   cand_score (candidate ''second'' 0.9) = Some 0.9 \<and>
   cand_score (candidate ''third'' 0.5) = Some 0.5 \<and>
   fst (ask_question_with_chunking
          (scripted [scored ''first'' 0.2, scored ''second'' 0.9, scored ''third'' 0.5])
          (document three_words) ''q'' 0) =
     Inr [(''answer'', PStr ''second''), (''score'', PFloat 0.9), (''start'', PInt 0),
          (''end'', PInt 1), (''chunk_index'', PInt 1)]"
proof -
  have rs: "search_results
      (scripted [scored ''first'' 0.2, scored ''second'' 0.9, scored ''third'' 0.5])
      (document three_words) ''q'' 0 =
      [candidate ''first'' 0.2, candidate ''second'' 0.9, candidate ''third'' 0.5]"
    by (rule search_results_three [OF chunk_text_three]) (rule long_word_nonempty)+
  show ?thesis
    using best_answer_is_maximum [where
        net = "scripted [scored ''first'' 0.2, scored ''second'' 0.9, scored ''third'' 0.5]"
        and self = "document three_words" and q = "''q''" and n = 0] rs
    by (simp add: cand_score_candidate candidate_index)
qed

text \<open>
  Without a score above 0 the statement fails: for a document of one chunk that scores 0
  the result is the sentinel, not the candidate of the chunk with its index.
\<close>

theorem best_answer_is_maximum_counterexample:
  "search_results (scripted [scored ''x'' 0]) (document ''a'') ''q'' 0 = [candidate ''x'' 0] \<and>
   cand_score (candidate ''x'' 0) = Some 0 \<and>
   fst (ask_question_with_chunking (scripted [scored ''x'' 0]) (document ''a'') ''q'' 0) =
     Inr sentinel \<and>
   fst (ask_question_with_chunking (scripted [scored ''x'' 0]) (document ''a'') ''q'' 0) \<noteq>
     Inr (dict_set (candidate ''x'' 0) ''chunk_index'' (PInt 0))"
proof -
  have rs: "search_results (scripted [scored ''x'' 0]) (document ''a'') ''q'' 0 =
      [candidate ''x'' 0]"
    by (rule search_results_one [OF chunk_text_a]) simp
  have "ask_question_with_chunking (scripted [scored ''x'' 0]) (document ''a'') ''q'' 0 =
      (Inr sentinel, 0 + length (search_results (scripted [scored ''x'' 0]) (document ''a'') ''q'' 0))"
    by (rule no_positive_score)
      (simp_all add: rs pdf_text_document cand_score_candidate well_scored_candidate)
  then show ?thesis
    using rs by (simp add: cand_score_candidate candidate_index sentinel_def)
qed

text \<open>
  Claim C4, as the code has it: for every document in which two or more chunks tie for
  the highest score, and that score is strictly above 0, \<open>ask_question_with_chunking\<close>
  returns the candidate from the lowest chunk index among them (the best answer is
  replaced only on a strictly greater score); for two chunks that both score 0.7 this is
  the one of the lower index. The chunks may return errors, or scores that are numbers.
\<close>

theorem first_of_tied_best:
  assumes "\<forall>r \<in> set (search_results net self q n). well_scored r"
    and "k1 < k2" and "k2 < length (search_results net self q n)"
    and "cand_score (search_results net self q n ! k1) = Some x"
    and "cand_score (search_results net self q n ! k2) = Some x"
    and "\<forall>i<length (search_results net self q n). \<forall>y.
           cand_score (search_results net self q n ! i) = Some y \<longrightarrow> y \<le> x"
    and "0 < x"
  shows "\<exists>k\<le>k1. cand_score (search_results net self q n ! k) = Some x \<and>
           (\<forall>i<k. cand_score (search_results net self q n ! i) \<noteq> Some x) \<and>
           fst (ask_question_with_chunking net self q n) =
             Inr (dict_set (search_results net self q n ! k) ''chunk_index'' (PInt (int k)))"
proof -
  define rs where "rs = search_results net self q n"
  note a = assms [folded rs_def]
  have k1: "k1 < length rs" using a(2,3) by simp
  then have t: "pdf_text self \<noteq> []"
    using search_results_text [of k1 net self q n] by (simp add: rs_def)
  from search_selected [OF t assms(1)]
  obtain d where d: "ask_question_with_chunking net self q n = (Inr d, n + length rs)"
      "selected rs 0 0 sentinel d" unfolding rs_def by blast
  have "\<not> (\<forall>i<length rs. \<forall>y. cand_score (rs ! i) = Some y \<longrightarrow> y \<le> 0)"
    using k1 a(4,7) by fastforce
  with d(2) obtain k z where k: "k < length rs" "cand_score (rs ! k) = Some z"
      "d = dict_set (rs ! k) ''chunk_index'' (PInt (int (0 + k)))"
      "\<forall>i<length rs. \<forall>y. cand_score (rs ! i) = Some y \<longrightarrow> y \<le> z"
      "\<forall>i<k. \<forall>y. cand_score (rs ! i) = Some y \<longrightarrow> y < z"
    unfolding selected_def by blast
  have "z \<le> x" using a(6) k(1,2) by blast
  moreover have "x \<le> z" using k(4) k1 a(4) by blast
  ultimately have z: "z = x" by simp
  have "k \<le> k1"
  proof (rule ccontr)
    assume "\<not> k \<le> k1"
    then have "k1 < k" by simp
    with k(5) a(4) z show False by fastforce
  qed
  moreover have "\<forall>i<k. cand_score (rs ! i) \<noteq> Some x"
    using k(5) z by fastforce
  ultimately show ?thesis using k(2,3) z d(1) unfolding rs_def by auto
qed

theorem first_of_tied_best_witness:
  "search_results (scripted [scored ''first'' 0.7, scored ''second'' 0.7])
     (document two_words) ''q'' 0 = [candidate ''first'' 0.7, candidate ''second'' 0.7] \<and>
   cand_score (candidate ''first'' 0.7) = Some 0.7 \<and>
   cand_score (candidate ''second'' 0.7) = Some 0.7 \<and>
   fst (ask_question_with_chunking (scripted [scored ''first'' 0.7, scored ''second'' 0.7])
          (document two_words) ''q'' 0) =
     Inr [(''answer'', PStr ''first''), (''score'', PFloat 0.7), (''start'', PInt 0),
          (''end'', PInt 1), (''chunk_index'', PInt 0)]"
proof -
  define net where "net = scripted [scored ''first'' 0.7, scored ''second'' 0.7]"
  have rs: "search_results net (document two_words) ''q'' 0 =
      [candidate ''first'' 0.7, candidate ''second'' 0.7]"
    unfolding net_def
    by (rule search_results_two [OF chunk_text_two]) (rule long_word_nonempty)+
  have "\<exists>k\<le>0. cand_score (search_results net (document two_words) ''q'' 0 ! k) = Some 0.7 \<and>
           (\<forall>i<k. cand_score (search_results net (document two_words) ''q'' 0 ! i) \<noteq> Some 0.7) \<and>
           fst (ask_question_with_chunking net (document two_words) ''q'' 0) =
             Inr (dict_set (search_results net (document two_words) ''q'' 0 ! k) ''chunk_index''
                    (PInt (int k)))"
    by (rule first_of_tied_best [where ?k2.0 = 1])
      (simp_all add: rs cand_score_candidate well_scored_candidate less_Suc_eq)
  then show ?thesis
    using rs by (simp add: cand_score_candidate candidate_index net_def)
qed

text \<open>
  When the highest score is 0 the statement fails: for two chunks that both score 0 the
  result is the sentinel, not the candidate of the first chunk.
\<close>

theorem first_of_tied_best_counterexample:
  "search_results (scripted [scored ''first'' 0, scored ''second'' 0])
     (document two_words) ''q'' 0 = [candidate ''first'' 0, candidate ''second'' 0] \<and>
   cand_score (candidate ''first'' 0) = Some 0 \<and>
   cand_score (candidate ''second'' 0) = Some 0 \<and>
   fst (ask_question_with_chunking (scripted [scored ''first'' 0, scored ''second'' 0])
          (document two_words) ''q'' 0) = Inr sentinel \<and>
   fst (ask_question_with_chunking (scripted [scored ''first'' 0, scored ''second'' 0])
          (document two_words) ''q'' 0) \<noteq>
     Inr (dict_set (candidate ''first'' 0) ''chunk_index'' (PInt 0))"
proof -
  define net where "net = scripted [scored ''first'' 0, scored ''second'' 0]"
  have rs: "search_results net (document two_words) ''q'' 0 =
      [candidate ''first'' 0, candidate ''second'' 0]"
    unfolding net_def
    by (rule search_results_two [OF chunk_text_two]) (rule long_word_nonempty)+
  have "ask_question_with_chunking net (document two_words) ''q'' 0 =
      (Inr sentinel, 0 + length (search_results net (document two_words) ''q'' 0))"
    by (rule no_positive_score)
      (simp_all add: rs pdf_text_document two_words_nonempty cand_score_candidate
        well_scored_candidate)
  then show ?thesis
    using rs by (simp add: cand_score_candidate candidate_index sentinel_def net_def)
qed

text \<open>
  Claim C9: for every non-empty document and every assignment of results to the chunks,
  the dictionary that \<open>ask_question_with_chunking\<close> returns has a score that is at least
  0, and it has the key \<open>chunk_index\<close> if and only if some successful chunk scored
  strictly above 0; when no successful chunk scores above 0 (a score of 0, a negative
  score, or a missing one, for which \<open>ask_question\<close> puts 0), the result is the sentinel.
  A dictionary is returned whenever every successful result has a number as its score.
\<close>

theorem best_answer_score:
  "pdf_text self \<noteq> [] \<Longrightarrow>
   (\<forall>d n'. ask_question_with_chunking net self q n = (Inr d, n') \<longrightarrow>
      (\<exists>s x. dict_index d ''score'' = Inr s \<and> num_val s = Some x \<and> 0 \<le> x) \<and>
      (has_key d ''chunk_index'' \<longleftrightarrow>
         (\<exists>i<length (search_results net self q n). \<exists>y.
            cand_score (search_results net self q n ! i) = Some y \<and> 0 < y)) \<and>
      ((\<forall>i<length (search_results net self q n). \<forall>y.
          cand_score (search_results net self q n ! i) = Some y \<longrightarrow> y \<le> 0) \<longrightarrow>
       d = sentinel)) \<and>
   ((\<forall>r \<in> set (search_results net self q n). well_scored r) \<longrightarrow>
      (\<exists>d. ask_question_with_chunking net self q n =
             (Inr d, n + length (search_results net self q n))))"
proof (intro conjI allI impI)
  assume t: "pdf_text self \<noteq> []"
    and "\<forall>r \<in> set (search_results net self q n). well_scored r"
  from search_selected [OF this]
  show "\<exists>d. ask_question_with_chunking net self q n =
             (Inr d, n + length (search_results net self q n))" by blast
next
  fix d n'
  assume t: "pdf_text self \<noteq> []"
    and r: "ask_question_with_chunking net self q n = (Inr d, n')"
  define rs where "rs = search_results net self q n"
  have "\<forall>r \<in> set rs. well_scored r"
    using chunking_Inr [OF t r] by (simp add: rs_def search_results_def)
  from search_selected [OF t this [unfolded rs_def]] r
  have sel: "selected rs 0 0 sentinel d" by (auto simp: rs_def)
  then consider
    (keep) "d = sentinel" "\<forall>i<length rs. \<forall>y. cand_score (rs ! i) = Some y \<longrightarrow> y \<le> 0"
  | (take) k x where "k < length rs" "cand_score (rs ! k) = Some x" "0 < x"
      "d = dict_set (rs ! k) ''chunk_index'' (PInt (int k))"
    unfolding selected_def by auto
  then have "(\<exists>s x. dict_index d ''score'' = Inr s \<and> num_val s = Some x \<and> 0 \<le> x) \<and>
      (has_key d ''chunk_index'' \<longleftrightarrow>
         (\<exists>i<length rs. \<exists>y. cand_score (rs ! i) = Some y \<and> 0 < y)) \<and>
      ((\<forall>i<length rs. \<forall>y. cand_score (rs ! i) = Some y \<longrightarrow> y \<le> 0) \<longrightarrow> d = sentinel)"
  proof cases
    case keep
    have "dict_index d ''score'' = Inr (PInt 0) \<and> num_val (PInt 0) = Some 0"
      using keep(1) by (simp add: sentinel_score)
    moreover have "\<not> has_key d ''chunk_index''" using keep(1) sentinel_keys by simp
    moreover have "\<not> (\<exists>i<length rs. \<exists>y. cand_score (rs ! i) = Some y \<and> 0 < y)"
      using keep(2) by fastforce
    ultimately show ?thesis using keep(1) by fastforce
  next
    case take
    note kx = take(1,2) [unfolded rs_def]
    note sr = scored_result(1) [OF kx, of "PInt (int k)", folded rs_def]
      scored_result(2) [OF kx, folded rs_def]
      scored_result(3) [OF kx, of "PInt (int k)", folded rs_def]
    have "dict_index d ''score'' = Inr (dict_get (rs ! k) ''score'' (PInt 0)) \<and>
        num_val (dict_get (rs ! k) ''score'' (PInt 0)) = Some x \<and> 0 \<le> x"
      using sr(1,2) take(3,4) by simp
    moreover have "has_key d ''chunk_index''" using sr(3) take(4) by simp
    moreover have "\<exists>i<length rs. \<exists>y. cand_score (rs ! i) = Some y \<and> 0 < y"
      using take(1,2,3) by blast
    moreover have "\<not> (\<forall>i<length rs. \<forall>y. cand_score (rs ! i) = Some y \<longrightarrow> y \<le> 0)"
      using take(1,2,3) by fastforce
    ultimately show ?thesis by blast
  qed
  then show "\<exists>s x. dict_index d ''score'' = Inr s \<and> num_val s = Some x \<and> 0 \<le> x"
    and "has_key d ''chunk_index'' \<longleftrightarrow>
         (\<exists>i<length (search_results net self q n). \<exists>y.
            cand_score (search_results net self q n ! i) = Some y \<and> 0 < y)"
    and "(\<forall>i<length (search_results net self q n). \<forall>y.
          cand_score (search_results net self q n ! i) = Some y \<longrightarrow> y \<le> 0) \<Longrightarrow>
       d = sentinel"
    unfolding rs_def by blast+
qed

theorem best_answer_score_witness:
  "pdf_text (document ''a'') \<noteq> [] \<and>
   search_results (scripted [scored ''nothing'' 0]) (document ''a'') ''q'' 0 =
     [candidate ''nothing'' 0] \<and>
   well_scored (candidate ''nothing'' 0) \<and>
   cand_score (candidate ''nothing'' 0) = Some 0 \<and>
   ask_question_with_chunking (scripted [scored ''nothing'' 0]) (document ''a'') ''q'' 0 =
     (Inr sentinel, 1) \<and>
   dict_index sentinel ''score'' = Inr (PInt 0) \<and> num_val (PInt 0) = Some 0 \<and>
   \<not> has_key sentinel ''chunk_index''"
proof -
  define net where "net = scripted [scored ''nothing'' 0]"
  have t: "pdf_text (document ''a'') \<noteq> []" by (simp add: pdf_text_document)
  have rs: "search_results net (document ''a'') ''q'' 0 = [candidate ''nothing'' 0]"
    unfolding net_def by (rule search_results_one [OF chunk_text_a]) simp
  note inst = best_answer_score [OF t, where net = net and q = "''q''" and n = 0]
  from inst [THEN conjunct2] obtain d where
    d: "ask_question_with_chunking net (document ''a'') ''q'' 0 = (Inr d, 1)"
    by (auto simp: rs well_scored_candidate)
  from inst [THEN conjunct1, rule_format, OF d] have "d = sentinel"
    by (simp add: rs cand_score_candidate)
  with d show ?thesis
    using rs t by (simp add: net_def well_scored_candidate cand_score_candidate
        sentinel_score sentinel_keys)
qed

end
